theory Spec2Isabelle
  imports Main "HOL-Library.Multiset"
begin

section \<open>archupd: an Arch Linux updater\<close>

text \<open>
  Shallow embedding of \<^verbatim>\<open>archupd.go\<close> (the complete variant) and of the
  earlier \<^verbatim>\<open>updall.go\<close>. External processes, the file system, the HTTP
  client and the Go library decoders are inputs of the model; everything the
  program prints, sends, executes or writes is an event of its trace.
\<close>

subsection \<open>Errors, events and library strings\<close>

text \<open>A Go \<^verbatim>\<open>error\<close> value: \<open>None\<close> is \<^verbatim>\<open>nil\<close>. An
  \<^verbatim>\<open>*exec.ExitError\<close> carries the exit code (\<open>-1\<close> when the process was
  killed by a signal); every other error is its message.\<close>

datatype error = ExitError int | OtherError string

record State =
  LastModified :: string
  LatestItemTime :: int

text \<open>What the program does to the world, in order: text on standard output
  (\<open>Println\<close> adds the newline, \<open>Print\<close> does not), an error printed by
  \<^verbatim>\<open>fmt.Println(err)\<close>, a line sent on the news channel and the closing of
  the channel, a function of the program called by \<^verbatim>\<open>main\<close>, the start of
  the news goroutine, an external process run with its argument vector, the
  HTTP request issued with its headers, a rendering by \<^verbatim>\<open>diff.Text\<close>, the
  state file created and the state encoded into it, and \<^verbatim>\<open>os.Exit\<close>.\<close>

datatype event =
    Println string
  | Print string
  | PrintlnErr error
  | Send string
  | Close
  | Call string "string list"
  | Go string
  | Exec "string list"
  | HttpGet string "(string \<times> string) list"
  | DiffText string string string string
  | WriteFile string State
  | Exit nat

definition NL :: char where
  "NL = CHR 0x0A"

definition CR :: char where
  "CR = CHR 0x0D"

text \<open>\<^verbatim>\<open>strings.TrimRight(s, cutset)\<close> for a cutset of ASCII bytes: all
  trailing bytes that occur in the cutset are removed.\<close>

definition TrimRight :: "string \<Rightarrow> string \<Rightarrow> string" where
  "TrimRight s cutset = rev (dropWhile (\<lambda>c. c \<in> set cutset) (rev s))"

text \<open>\<^verbatim>\<open>strings.Split(s, sep)\<close> for a separator of one byte: the pieces
  between the occurrences of the separator, one more than there are
  occurrences.\<close>

fun Split :: "string \<Rightarrow> char \<Rightarrow> string list" where
  "Split [] sep = [[]]"
| "Split (c # cs) sep =
     (if c = sep then [] # Split cs sep
      else (case Split cs sep of
              [] \<Rightarrow> [[c]]
            | w # ws \<Rightarrow> (c # w) # ws))"

subsection \<open>Superfluous-package remover\<close>

text \<open>\<^verbatim>\<open>removeSuperfluousPackages\<close>. The parameter \<open>sudo\<close> is the behaviour
  of \<^verbatim>\<open>exec.Command("sudo", args...).Run()\<close>: the bytes the process writes
  to its standard output and the error \<^verbatim>\<open>Run\<close> returns.\<close>

definition removeSuperfluousPackages ::
  "(string list \<Rightarrow> string \<times> error option) \<Rightarrow> event list \<times> error option" where
  "removeSuperfluousPackages sudo =
     (let query = [''pacman'', ''-Qqtd''];
          (output, err) = sudo query
      in case err of
           Some (ExitError code) \<Rightarrow>
             if code = 1
             then ([Exec (''sudo'' # query), Println ''\<newline>No superfluous packages.''], None)
             else ([Exec (''sudo'' # query)], Some (ExitError code))
         | Some (OtherError msg) \<Rightarrow> ([Exec (''sudo'' # query)], Some (OtherError msg))
         | None \<Rightarrow>
             let pkgs = Split (TrimRight output [NL]) NL
             in if length pkgs = 0 then ([Exec (''sudo'' # query)], None)
                else
                  let args = [''pacman'', ''-Rs''] @ pkgs
                  in ([Exec (''sudo'' # query),
                       Println ''\<newline>Superfluous packages can be removed:'',
                       Exec (''sudo'' # args)],
                      snd (sudo args)))"

text \<open>A package database without orphans whose query nevertheless exits with
  status 0 and prints nothing; the removal then fails with status 1.\<close>

definition sudo_empty_query :: "string list \<Rightarrow> string \<times> error option" where
  "sudo_empty_query args =
     (if args = [''pacman'', ''-Qqtd''] then ([], None) else ([], Some (ExitError 1)))"

definition sudo_query_exit :: "int \<Rightarrow> string list \<Rightarrow> string \<times> error option" where
  "sudo_query_exit code args = ([], Some (ExitError code))"

subsection \<open>Line scanner of the Go library\<close>

text \<open>\<^verbatim>\<open>bufio.ScanLines\<close> and its helper, as the library has them: the
  token is the text before the first newline with one trailing carriage return
  dropped; at end of input the rest is a last token, unless it is empty.\<close>

definition dropCR :: "string \<Rightarrow> string" where
  "dropCR data = (if data \<noteq> [] \<and> last data = CR then butlast data else data)"

fun IndexByte :: "string \<Rightarrow> char \<Rightarrow> nat option" where
  "IndexByte [] c = None"
| "IndexByte (x # xs) c =
     (if x = c then Some 0 else map_option Suc (IndexByte xs c))"

definition ScanLines :: "string \<Rightarrow> bool \<Rightarrow> nat \<times> string option" where
  "ScanLines data atEOF =
     (if atEOF \<and> data = [] then (0, None)
      else case IndexByte data NL of
             Some i \<Rightarrow> (i + 1, Some (dropCR (take i data)))
           | None \<Rightarrow> if atEOF then (length data, Some (dropCR data)) else (0, None))"

definition MaxScanTokenSize :: nat where
  "MaxScanTokenSize = 64 * 1024"

text \<open>The tokens that successive calls of \<^verbatim>\<open>Scanner.Scan\<close> deliver on an
  input, until \<^verbatim>\<open>Scan\<close> returns false. The scanner's buffer holds at most
  \<open>MaxScanTokenSize\<close> bytes of the unread input, and end of input is seen only
  while the buffer has room; a full buffer without a token ends the scan
  (\<^verbatim>\<open>ErrTooLong\<close>, which neither caller inspects).\<close>

function Scan :: "string \<Rightarrow> string list" where
  "Scan input =
     (case ScanLines (take MaxScanTokenSize input) (length input < MaxScanTokenSize) of
        (advance, Some token) \<Rightarrow> token # Scan (drop advance input)
      | (advance, None) \<Rightarrow> [])"
  by pat_completeness auto
termination
  apply (relation "measure length")
   apply simp
  apply (auto simp: ScanLines_def MaxScanTokenSize_def split: if_splits option.splits)
  done

declare Scan.simps [simp del]

subsection \<open>Changelog snapshotter\<close>

text \<open>\<^verbatim>\<open>CHANGELOG_PACKAGE_REGEXP.FindSubmatch(line)\<close> for the pattern
  \<^verbatim>\<open>^Changelog for (.+):$\<close>: the first group when the whole line is the
  prefix, at least one byte other than newline, and a final colon.\<close>

definition FindSubmatch :: "string \<Rightarrow> string option" where
  "FindSubmatch line =
     (let prefix = ''Changelog for ''; n = length prefix
      in if take n line = prefix \<and> n + 2 \<le> length line \<and> last line = CHR '':''
            \<and> NL \<notin> set line
         then Some (take (length line - n - 1) (drop n line))
         else None)"

record snapshot =
  result :: "string \<rightharpoonup> string"
  currPkg :: string
  currLog :: string

definition flush :: "snapshot \<Rightarrow> string \<rightharpoonup> string" where
  "flush s = (if currPkg s \<noteq> [] then (result s)(currPkg s \<mapsto> currLog s) else result s)"

text \<open>One round of the loop over the scanner's lines.\<close>

definition scan_line :: "snapshot \<Rightarrow> string \<Rightarrow> snapshot" where
  "scan_line s line =
     (case FindSubmatch line of
        Some name \<Rightarrow> \<lparr>result = flush s, currPkg = name, currLog = []\<rparr>
      | None \<Rightarrow> s\<lparr>currLog := currLog s @ line @ [NL]\<rparr>)"

text \<open>The run of \<^verbatim>\<open>pacman -Qc\<close>: the errors of creating the pipe, of
  starting and of waiting for the process, and the bytes it writes.\<close>

record query_run =
  pipe_err :: "error option"
  start_err :: "error option"
  stdout :: string
  wait_err :: "error option"

definition getChangelogs :: "query_run \<Rightarrow> error + (string \<rightharpoonup> string)" where
  "getChangelogs run =
     (case pipe_err run of
        Some e \<Rightarrow> Inl e
      | None \<Rightarrow>
          (case start_err run of
             Some e \<Rightarrow> Inl e
           | None \<Rightarrow>
               let s = foldl scan_line \<lparr>result = Map.empty, currPkg = [], currLog = []\<rparr>
                         (Scan (stdout run));
                   res = flush s
               in (case wait_err run of Some e \<Rightarrow> Inl e | None \<Rightarrow> Inr res)))"

text \<open>The parsing algorithm in the words of the specification, for comparison:
  the output is cut into lines, each keeping its newline; a header line starts
  a new package after the previous package's text has gone into the mapping;
  every other line is appended as it is to the current package's text; the last
  package's text goes into the mapping at the end.\<close>

fun raw_lines :: "string \<Rightarrow> string list" where
  "raw_lines [] = []"
| "raw_lines (c # cs) =
     (if c = NL then [NL] # raw_lines cs
      else (case raw_lines cs of
              [] \<Rightarrow> [[c]]
            | l # ls \<Rightarrow> (c # l) # ls))"

definition chomp :: "string \<Rightarrow> string" where
  "chomp l = (if l \<noteq> [] \<and> last l = NL then butlast l else l)"

definition spec_header :: "string \<Rightarrow> string option" where
  "spec_header l = FindSubmatch (chomp l)"

fun spec_accumulate ::
  "(string \<times> string) option \<Rightarrow> (string \<rightharpoonup> string) \<Rightarrow> string list \<Rightarrow> string \<rightharpoonup> string" where
  "spec_accumulate None m [] = m"
| "spec_accumulate (Some (pkg, buf)) m [] = m(pkg \<mapsto> buf)"
| "spec_accumulate cur m (l # ls) =
     (case spec_header l of
        Some name \<Rightarrow>
          spec_accumulate (Some (name, []))
            (case cur of None \<Rightarrow> m | Some (pkg, buf) \<Rightarrow> m(pkg \<mapsto> buf)) ls
      | None \<Rightarrow>
          spec_accumulate
            (case cur of None \<Rightarrow> None | Some (pkg, buf) \<Rightarrow> Some (pkg, buf @ l)) m ls)"

definition spec_changelogs :: "string \<Rightarrow> string \<rightharpoonup> string" where
  "spec_changelogs text = spec_accumulate None Map.empty (raw_lines text)"

text \<open>A line as the specification's algorithm expects it: ended by a newline,
  no carriage return before the newline, and short enough for the scanner's
  buffer.\<close>

definition plain_line :: "string \<Rightarrow> bool" where
  "plain_line l \<longleftrightarrow>
     l \<noteq> [] \<and> last l = NL \<and> length l \<le> MaxScanTokenSize
     \<and> (butlast l = [] \<or> last (butlast l) \<noteq> CR)"

text \<open>A line that the scanner's buffer can hold, and the line as the scanner
  hands it to the loop, with the newline the loop adds.\<close>

definition fits_buffer :: "string \<Rightarrow> bool" where
  "fits_buffer l \<longleftrightarrow>
     (if l \<noteq> [] \<and> last l = NL then length l \<le> MaxScanTokenSize
      else length l < MaxScanTokenSize)"

definition scanner_line :: "string \<Rightarrow> string" where
  "scanner_line l = dropCR (chomp l) @ [NL]"

text \<open>The loop's variables against the specification's current package and
  mapping.\<close>

definition agrees :: "snapshot \<Rightarrow> (string \<times> string) option \<Rightarrow> (string \<rightharpoonup> string) \<Rightarrow> bool" where
  "agrees s cur m \<longleftrightarrow>
     result s = m \<and>
     (case cur of
        None \<Rightarrow> currPkg s = []
      | Some (pkg, buf) \<Rightarrow> currPkg s = pkg \<and> pkg \<noteq> [] \<and> currLog s = buf)"

definition query_ok :: "string \<Rightarrow> query_run" where
  "query_ok text = \<lparr>pipe_err = None, start_err = None, stdout = text, wait_err = None\<rparr>"

text \<open>The specification's scenario, a small output of its own kind, and an
  output whose second line ends in carriage return and newline.\<close>

definition scenario_output :: string where
  "scenario_output =
     ''Changelog for foo:\<newline>line1\<newline>Changelog for bar:\<newline>line2\<newline>line3\<newline>''"

definition small_output :: string where
  "small_output = ''Changelog for a:\<newline>x\<newline>''"

definition crlf_output :: string where
  "crlf_output = ''Changelog for foo:'' @ NL # ''line1'' @ [CR, NL]"

subsection \<open>Log tail monitor\<close>

text \<open>A file as the operating system presents it: its bytes, and the errors
  that seeking and reading it give, if any.\<close>

record os_file =
  bytes :: string
  seek_err :: "error option"
  read_err :: "error option"

text \<open>The monitor is an open file; what matters of it is the position of the
  next read.\<close>

record logMonitor =
  offset :: nat

definition newLogMonitor :: "(string \<Rightarrow> error + os_file) \<Rightarrow> string \<Rightarrow> error + logMonitor" where
  "newLogMonitor open_file path =
     (case open_file path of
        Inl e \<Rightarrow> Inl e
      | Inr f \<Rightarrow>
          (case seek_err f of
             Some e \<Rightarrow> Inl e
           | None \<Rightarrow> Inr \<lparr>offset = length (bytes f)\<rparr>))"


text \<open>\<^verbatim>\<open>lines\<close> of \<^verbatim>\<open>archupd.go\<close> with the loop that drains it: the
  scanner's tokens over what the file holds from the position on. A read
  error ends the scan like the end of the file.\<close>

definition lines :: "logMonitor \<Rightarrow> os_file \<Rightarrow> string list" where
  "lines m f =
     (case read_err f of
        Some e \<Rightarrow> []
      | None \<Rightarrow> Scan (drop (offset m) (bytes f)))"

definition regular_file :: "string \<Rightarrow> os_file" where
  "regular_file b = \<lparr>bytes = b, seek_err = None, read_err = None\<rparr>"

text \<open>A file system that holds the package manager's log and nothing else.\<close>

definition log_only :: "string \<Rightarrow> string \<Rightarrow> error + os_file" where
  "log_only b path =
     (if path = ''/var/log/pacman.log'' then Inr (regular_file b)
      else Inl (OtherError ''no such file or directory''))"

subsection \<open>Changelog differ\<close>

text \<open>\<^verbatim>\<open>showChangelogDiff\<close>. A Go map is ranged over in an order of the run's
  choosing: \<open>order\<close> lists the keys of \<open>changelogsPost\<close> as this run visits
  them. \<open>diff_err\<close> is the error \<^verbatim>\<open>diff.Text\<close> returns after writing its
  rendering, which is the event \<open>DiffText\<close>.\<close>

fun diff_loop ::
  "(string \<Rightarrow> string \<Rightarrow> string option) \<Rightarrow> (string \<rightharpoonup> string) \<Rightarrow> (string \<rightharpoonup> string)
     \<Rightarrow> bool \<Rightarrow> string list \<Rightarrow> event list \<times> bool" where
  "diff_loop diff_err changelogsPre changelogsPost foundAny [] = ([], foundAny)"
| "diff_loop diff_err changelogsPre changelogsPost foundAny (pkg # rest) =
     (case changelogsPost pkg of
        None \<Rightarrow> diff_loop diff_err changelogsPre changelogsPost foundAny rest
      | Some logPost \<Rightarrow>
          (case changelogsPre pkg of
             None \<Rightarrow> diff_loop diff_err changelogsPre changelogsPost foundAny rest
           | Some logPre \<Rightarrow>
               if logPre \<noteq> logPost
               then
                 let (evs, found) = diff_loop diff_err changelogsPre changelogsPost True rest
                 in ((if \<not> foundAny then [Println ''\<newline>Changelog diffs:\<newline>''] else [])
                     @ [DiffText (pkg @ '' (before)'') (pkg @ '' (after)'') logPre logPost]
                     @ (case diff_err logPre logPost of
                          Some msg \<Rightarrow> [Println msg]
                        | None \<Rightarrow> [])
                     @ evs, found)
               else diff_loop diff_err changelogsPre changelogsPost foundAny rest))"

definition showChangelogDiff ::
  "(string \<Rightarrow> string \<Rightarrow> string option) \<Rightarrow> (string \<rightharpoonup> string) \<Rightarrow> (string \<rightharpoonup> string)
     \<Rightarrow> string list \<Rightarrow> event list" where
  "showChangelogDiff diff_err changelogsPre changelogsPost order =
     (let (evs, foundAny) = diff_loop diff_err changelogsPre changelogsPost False order
      in evs @ (if \<not> foundAny then [Println ''\<newline>No updated changelogs.''] else []))"

text \<open>The packages for which a trace holds a rendering.\<close>

fun rendered_pkgs :: "event list \<Rightarrow> (string \<times> string) list" where
  "rendered_pkgs [] = []"
| "rendered_pkgs (DiffText a b x y # evs) = (a, b) # rendered_pkgs evs"
| "rendered_pkgs (e # evs) = rendered_pkgs evs"

definition rendered :: "string \<Rightarrow> event list \<Rightarrow> bool" where
  "rendered pkg evs \<longleftrightarrow> (pkg @ '' (before)'', pkg @ '' (after)'') \<in> set (rendered_pkgs evs)"

definition differs :: "(string \<rightharpoonup> string) \<Rightarrow> (string \<rightharpoonup> string) \<Rightarrow> string \<Rightarrow> bool" where
  "differs changelogsPre changelogsPost pkg \<longleftrightarrow>
     pkg \<in> dom changelogsPre \<and> pkg \<in> dom changelogsPost
     \<and> changelogsPre pkg \<noteq> changelogsPost pkg"

definition no_diff_err :: "string \<Rightarrow> string \<Rightarrow> string option" where
  "no_diff_err a b = None"

text \<open>Two snapshots: package \<open>a\<close> changed, \<open>b\<close> did not, \<open>c\<close> is new.\<close>

definition pre_example :: "string \<rightharpoonup> string" where
  "pre_example = [''a'' \<mapsto> ''1\<newline>'', ''b'' \<mapsto> ''x\<newline>'']"

definition post_example :: "string \<rightharpoonup> string" where
  "post_example = [''a'' \<mapsto> ''2\<newline>'', ''b'' \<mapsto> ''x\<newline>'', ''c'' \<mapsto> ''y\<newline>'']"

subsection \<open>State store\<close>

text \<open>A point in time is the number of seconds since the zero value of
  \<^verbatim>\<open>time.Time\<close>, so \<open>0\<close> is the zero time and \<^verbatim>\<open>a.After(b)\<close> is \<open>b < a\<close>.\<close>

definition zeroState :: State where
  "zeroState = \<lparr>LastModified = [], LatestItemTime = 0\<rparr>"

record FeedItem =
  Title :: string
  Link :: string
  Time :: int
  GUID :: string

text \<open>\<^verbatim>\<open>os.Open\<close> on the state file: an error, with whether it is
  \<^verbatim>\<open>fs.ErrNotExist\<close> and its message, or the file's content.\<close>

datatype open_result = OpenError bool string | Opened string

text \<open>\<^verbatim>\<open>http.DefaultClient.Do\<close>: an error message or a response.\<close>

record http_response =
  StatusCode :: int
  Status :: string
  LastModifiedValues :: "string list"
  Body :: string

datatype do_result = DoError string | Response http_response

text \<open>The world of the feed poller. Environment variables are empty when
  unset. \<open>JSONDecode\<close> is \<^verbatim>\<open>json.NewDecoder(f).Decode(&state)\<close> on a file's
  content: what it leaves in the zero-valued state, and its error.
  \<open>LastModifiedValues\<close> of a response is \<^verbatim>\<open>resp.Header.Values("Last-Modified")\<close>,
  empty for \<^verbatim>\<open>nil\<close>. \<open>XMLDecode\<close> is \<^verbatim>\<open>decoder.Decode(&feed)\<close> on a body:
  an error message or \<^verbatim>\<open>feed.Items\<close>. \<open>SortSlice\<close> is \<^verbatim>\<open>sort.Slice\<close> with
  the program's comparison, and \<open>Format\<close> is
  \<^verbatim>\<open>t.Local().Format("2006-01-02 15:04")\<close>.\<close>

record poll_env =
  XDG_STATE_HOME :: string
  HOME :: string
  Join :: "string list \<Rightarrow> string"
  Dir :: "string \<Rightarrow> string"
  Open :: "string \<Rightarrow> open_result"
  JSONDecode :: "string \<Rightarrow> State \<times> string option"
  MkdirAll :: "string \<Rightarrow> string option"
  Create :: "string \<Rightarrow> string option"
  NewRequestError :: "string option"
  Do :: "(string \<times> string) list \<Rightarrow> do_result"
  XMLDecode :: "string \<Rightarrow> string + FeedItem list"
  SortSlice :: "FeedItem list \<Rightarrow> FeedItem list"
  Format :: "int \<Rightarrow> string"

definition NEWSFEED_URL :: string where
  "NEWSFEED_URL = ''https://archlinux.org/feeds/news/''"

text \<open>\<^verbatim>\<open>stateFileName\<close> of \<^verbatim>\<open>archupd.go\<close>; \<open>Inl\<close> is the panic.\<close>

definition stateFileName :: "poll_env \<Rightarrow> string + string" where
  "stateFileName env =
     (if XDG_STATE_HOME env = []
      then (if HOME env = [] then Inl ''$HOME is not defined''
            else Inr (Join env [Join env [HOME env, ''.local'', ''state''], ''archupd.json'']))
      else Inr (Join env [XDG_STATE_HOME env, ''archupd.json'']))"

definition readState :: "poll_env \<Rightarrow> string + State \<times> event list" where
  "readState env =
     (case stateFileName env of
        Inl p \<Rightarrow> Inl p
      | Inr fileName \<Rightarrow>
          (case Open env fileName of
             OpenError notExist msg \<Rightarrow>
               Inr (zeroState, if \<not> notExist then [Println msg] else [])
           | Opened content \<Rightarrow> Inr (fst (JSONDecode env content), [])))"

definition writeState :: "poll_env \<Rightarrow> State \<Rightarrow> string + event list" where
  "writeState env state =
     (case stateFileName env of
        Inl p \<Rightarrow> Inl p
      | Inr fileName \<Rightarrow>
          (case MkdirAll env (Dir env fileName) of
             Some msg \<Rightarrow> Inr [Println msg]
           | None \<Rightarrow>
               (case Create env fileName of
                  Some msg \<Rightarrow> Inr [Println msg]
                | None \<Rightarrow> Inr [WriteFile fileName state])))"

text \<open>The same three functions in \<^verbatim>\<open>updall.go\<close>.\<close>

definition stateFileName_updall :: "poll_env \<Rightarrow> string + string" where
  "stateFileName_updall env =
     (if HOME env = [] then Inl ''$HOME is not defined''
      else Inr (Join env [HOME env, ''.updall-state.json'']))"

definition readState_updall :: "poll_env \<Rightarrow> string + State \<times> event list" where
  "readState_updall env =
     (case stateFileName_updall env of
        Inl p \<Rightarrow> Inl p
      | Inr fileName \<Rightarrow>
          (case Open env fileName of
             OpenError notExist msg \<Rightarrow> Inr (zeroState, [Println msg])
           | Opened content \<Rightarrow> Inr (fst (JSONDecode env content), [])))"

definition writeState_updall :: "poll_env \<Rightarrow> State \<Rightarrow> string + event list" where
  "writeState_updall env state =
     (case stateFileName_updall env of
        Inl p \<Rightarrow> Inl p
      | Inr fileName \<Rightarrow>
          (case Create env fileName of
             Some msg \<Rightarrow> Inr [Println msg]
           | None \<Rightarrow> Inr [WriteFile fileName state]))"

subsection \<open>Feed poller\<close>

definition item_line :: "(int \<Rightarrow> string) \<Rightarrow> FeedItem \<Rightarrow> string" where
  "item_line fmt item =
     ''  - '' @ fmt (Time item) @ '': '' @ Title item @ '' ('' @ Link item @ '')''"

text \<open>The loop over the sorted items of \<^verbatim>\<open>archupd.go\<close>.\<close>

fun news_loop :: "(int \<Rightarrow> string) \<Rightarrow> int \<Rightarrow> bool \<Rightarrow> FeedItem list \<Rightarrow> event list \<times> bool" where
  "news_loop fmt latest foundAny [] = ([], foundAny)"
| "news_loop fmt latest foundAny (item # rest) =
     (if latest < Time item
      then
        let (evs, found) = news_loop fmt latest True rest
        in ((if \<not> foundAny then [Send ''Arch Linux news:''] else [])
            @ [Send (item_line fmt item)] @ evs, found)
      else news_loop fmt latest foundAny rest)"

text \<open>What \<^verbatim>\<open>readNews\<close> does with the decoded feed: the lines it sends and
  the state it leaves for the deferred \<^verbatim>\<open>writeState\<close>.\<close>

definition announce :: "poll_env \<Rightarrow> State \<Rightarrow> FeedItem list \<Rightarrow> event list \<times> State" where
  "announce env state feedItems =
     (let items = SortSlice env feedItems
      in case items of
           [] \<Rightarrow> ([Send ''No Arch Linux news (empty feed).''], state)
         | first # _ \<Rightarrow>
             let (evs, foundAny) = news_loop (Format env) (LatestItemTime state) False items
             in (evs @ (if \<not> foundAny then [Send ''No Arch Linux news.''] else []),
                 state\<lparr>LatestItemTime := Time first\<rparr>))"

definition request_header :: "State \<Rightarrow> (string \<times> string) list" where
  "request_header state =
     (if LastModified state \<noteq> [] then [(''If-Modified-Since'', LastModified state)] else [])"

definition capture :: "http_response \<Rightarrow> State \<Rightarrow> State" where
  "capture resp state =
     (case LastModifiedValues resp of
        [] \<Rightarrow> state
      | lastMod # _ \<Rightarrow> state\<lparr>LastModified := lastMod\<rparr>)"

text \<open>\<^verbatim>\<open>readNews\<close> of \<^verbatim>\<open>archupd.go\<close>. The deferred calls run when the
  function returns, last deferred first: \<^verbatim>\<open>writeState\<close>, registered only
  after the feed has been decoded, then \<^verbatim>\<open>close(ch)\<close>.\<close>

definition readNews :: "poll_env \<Rightarrow> string + event list" where
  "readNews env =
     (case readState env of
        Inl p \<Rightarrow> Inl p
      | Inr (state, diag) \<Rightarrow>
          (case NewRequestError env of
             Some msg \<Rightarrow>
               Inr (diag @ [Send (''Arch Linux news: failed to formulate request: '' @ msg), Close])
           | None \<Rightarrow>
               (case Do env (request_header state) of
                  DoError msg \<Rightarrow>
                    Inr (diag @ [HttpGet NEWSFEED_URL (request_header state),
                           Send (''Arch Linux news: failed to send request: '' @ msg), Close])
                | Response resp \<Rightarrow>
                    if StatusCode resp = 304
                    then Inr (diag @ [HttpGet NEWSFEED_URL (request_header state),
                                Send ''No Arch Linux news.'', Close])
                    else if StatusCode resp \<noteq> 200
                    then Inr (diag @ [HttpGet NEWSFEED_URL (request_header state),
                                Send (''Arch Linux news: unexpected HTTP status: '' @ Status resp),
                                Close])
                    else
                      (case XMLDecode env (Body resp) of
                         Inl msg \<Rightarrow>
                           Inr (diag @ [HttpGet NEWSFEED_URL (request_header state),
                                  Send (''Arch Linux news: failed to decode feed: '' @ msg), Close])
                       | Inr feedItems \<Rightarrow>
                           let (sends, final) = announce env (capture resp state) feedItems
                           in (case writeState env final of
                                 Inl p \<Rightarrow> Inl p
                               | Inr written \<Rightarrow>
                                   Inr (diag @ [HttpGet NEWSFEED_URL (request_header state)]
                                        @ sends @ written @ [Close]))))))"

text \<open>\<^verbatim>\<open>readNews\<close> of \<^verbatim>\<open>updall.go\<close>: other texts, no heading line, and
  \<^verbatim>\<open>writeState\<close> deferred before the feed is decoded.\<close>

fun news_loop_updall :: "(int \<Rightarrow> string) \<Rightarrow> int \<Rightarrow> bool \<Rightarrow> FeedItem list \<Rightarrow> event list \<times> bool" where
  "news_loop_updall fmt latest gotAny [] = ([], gotAny)"
| "news_loop_updall fmt latest gotAny (item # rest) =
     (if latest < Time item
      then
        let (evs, got) = news_loop_updall fmt latest True rest
        in (Send (fmt (Time item) @ '': '' @ Title item @ '' ('' @ Link item @ '')'') # evs, got)
      else news_loop_updall fmt latest gotAny rest)"

definition announce_updall :: "poll_env \<Rightarrow> State \<Rightarrow> FeedItem list \<Rightarrow> event list \<times> State" where
  "announce_updall env state feedItems =
     (let items = SortSlice env feedItems
      in case items of
           [] \<Rightarrow> ([Send ''No news (empty RSS feed)''], state)
         | first # _ \<Rightarrow>
             let (evs, gotAny) = news_loop_updall (Format env) (LatestItemTime state) False items
             in (evs @ (if \<not> gotAny then [Send ''No new news (HTTP 200)''] else []),
                 state\<lparr>LatestItemTime := Time first\<rparr>))"

definition readNews_updall :: "poll_env \<Rightarrow> string + event list" where
  "readNews_updall env =
     (case readState_updall env of
        Inl p \<Rightarrow> Inl p
      | Inr (state, diag) \<Rightarrow>
          (case NewRequestError env of
             Some msg \<Rightarrow> Inr (diag @ [Send (''Failed to formulate request: '' @ msg), Close])
           | None \<Rightarrow>
               (case Do env (request_header state) of
                  DoError msg \<Rightarrow>
                    Inr (diag @ [HttpGet NEWSFEED_URL (request_header state),
                           Send (''Failed to send request: '' @ msg), Close])
                | Response resp \<Rightarrow>
                    if StatusCode resp = 304
                    then Inr (diag @ [HttpGet NEWSFEED_URL (request_header state),
                                Send ''No news (HTTP 304)'', Close])
                    else if StatusCode resp \<noteq> 200
                    then Inr (diag @ [HttpGet NEWSFEED_URL (request_header state),
                                Send (''Unexpected HTTP status: '' @ Status resp), Close])
                    else
                      let (sends, final) =
                            (case XMLDecode env (Body resp) of
                               Inl msg \<Rightarrow> ([Send msg], capture resp state)
                             | Inr feedItems \<Rightarrow>
                                 announce_updall env (capture resp state) feedItems)
                      in (case writeState_updall env final of
                            Inl p \<Rightarrow> Inl p
                          | Inr written \<Rightarrow>
                              Inr (diag @ [HttpGet NEWSFEED_URL (request_header state)]
                                   @ sends @ written @ [Close])))))"

text \<open>A poll that reaches a response with status 200.\<close>

definition fetched :: "poll_env \<Rightarrow> State \<Rightarrow> http_response \<Rightarrow> bool" where
  "fetched env state resp \<longleftrightarrow>
     NewRequestError env = None \<and> Do env (request_header state) = Response resp
     \<and> StatusCode resp = 200"

text \<open>The lines of a poll whose new items, newest first, are \<open>items\<close>.\<close>

definition news_lines :: "poll_env \<Rightarrow> FeedItem list \<Rightarrow> event list" where
  "news_lines env items =
     (if items = [] then [Send ''No Arch Linux news.'']
      else Send ''Arch Linux news:'' # map (\<lambda>i. Send (item_line (Format env) i)) items)"

text \<open>The states written to the state file in a trace.\<close>

fun written_states :: "event list \<Rightarrow> State list" where
  "written_states [] = []"
| "written_states (WriteFile name state # evs) = state # written_states evs"
| "written_states (e # evs) = written_states evs"

definition trace_of :: "string + event list \<Rightarrow> event list" where
  "trace_of r = (case r of Inl p \<Rightarrow> [] | Inr evs \<Rightarrow> evs)"

text \<open>An insertion sort, newest first, for \<^verbatim>\<open>sort.Slice\<close> in examples.\<close>

fun insert_newest :: "FeedItem \<Rightarrow> FeedItem list \<Rightarrow> FeedItem list" where
  "insert_newest x [] = [x]"
| "insert_newest x (y # ys) =
     (if Time y < Time x then x # y # ys else y # insert_newest x ys)"

fun newest_first :: "FeedItem list \<Rightarrow> FeedItem list" where
  "newest_first [] = []"
| "newest_first (x # xs) = insert_newest x (newest_first xs)"

text \<open>An example world: a home directory, the state file absent (\<open>None\<close>) or
  holding a state, and a server that answers with the given response.\<close>

definition example_env :: "State option \<Rightarrow> http_response \<Rightarrow> (string + FeedItem list) \<Rightarrow> poll_env" where
  "example_env stored resp decoded =
     \<lparr>XDG_STATE_HOME = [], HOME = ''/home/u'',
      Join = (\<lambda>parts. foldr (\<lambda>a b. if b = [] then a else a @ ''/'' @ b) parts []),
      Dir = (\<lambda>path. ''/home/u/.local/state''),
      Open = (\<lambda>path. case stored of
                None \<Rightarrow> OpenError True ''no such file or directory''
              | Some st \<Rightarrow> Opened ''{}''),
      JSONDecode = (\<lambda>content. case stored of
                None \<Rightarrow> (zeroState, None)
              | Some st \<Rightarrow> (st, None)),
      MkdirAll = (\<lambda>path. None),
      Create = (\<lambda>path. None),
      NewRequestError = None,
      Do = (\<lambda>header. Response resp),
      XMLDecode = (\<lambda>body. decoded),
      SortSlice = newest_first,
      Format = (\<lambda>t. ''t'')\<rparr>"

definition ok_response :: "string \<Rightarrow> http_response" where
  "ok_response lastMod =
     \<lparr>StatusCode = 200, Status = ''200 OK'', LastModifiedValues = [lastMod], Body = ''<rss/>''\<rparr>"

definition item_at :: "string \<Rightarrow> int \<Rightarrow> FeedItem" where
  "item_at title t =
     \<lparr>Title = title, Link = ''https://archlinux.org/news/'', Time = t, GUID = title\<rparr>"

text \<open>Example polls: two polls in a row, of which the second finds a feed whose
  only item is older than the stored watermark; a poll whose body does not
  decode; a state file that cannot be opened; and one with malformed content.\<close>

definition state_path :: string where
  "state_path = ''/home/u/.local/state/archupd.json''"

definition three_items :: "FeedItem list" where
  "three_items = [item_at ''a'' 10, item_at ''c'' 30, item_at ''b'' 20]"

definition first_poll :: poll_env where
  "first_poll = example_env None (ok_response ''Mon'') (Inr [item_at ''a'' 10])"

definition second_poll :: poll_env where
  "second_poll =
     example_env (Some \<lparr>LastModified = ''Mon'', LatestItemTime = 10\<rparr>) (ok_response ''Tue'')
       (Inr [item_at ''b'' 5])"

definition undecodable_poll :: poll_env where
  "undecodable_poll = example_env None (ok_response ''Mon'') (Inl ''EOF'')"

definition unreadable_env :: poll_env where
  "unreadable_env =
     (example_env None (ok_response ''Mon'') (Inr []))
       \<lparr>Open := \<lambda>path. OpenError False ''permission denied''\<rparr>"

definition malformed_env :: poll_env where
  "malformed_env =
     (example_env None (ok_response ''Mon'') (Inr []))
       \<lparr>Open := \<lambda>path. Opened ''garbage'',
        JSONDecode := \<lambda>content. (zeroState, Some ''invalid character'')\<rparr>"

subsection \<open>Orchestration\<close>

definition PACMAN_LOG_PATH :: string where
  "PACMAN_LOG_PATH = ''/var/log/pacman.log''"

definition PACMAN_LOG_ALPM_MARKER :: string where
  "PACMAN_LOG_ALPM_MARKER = '' [ALPM] ''"

definition HELP_STR :: string where
  \<open>HELP_STR =
''
  Arch Linux updater. Run without args and it will:

  - Run "sudo pacman -Sc" to clean up old packages.
  - Run "sudo pacman -Syu" to update outdated packages.
  - Show relevant pacman logfile contents, which includes the old and new version of each package.
  - Show any new package changelog entries.
  - Offer to remove packages that have become unrequired.
  - Display any new official Arch Linux news from RSS feed.
''\<close>

text \<open>\<^verbatim>\<open>bytes.Contains(b, subslice)\<close>.\<close>

fun Contains :: "string \<Rightarrow> string \<Rightarrow> bool" where
  "Contains [] subslice = (subslice = [])"
| "Contains (c # cs) subslice =
     (take (length subslice) (c # cs) = subslice \<or> Contains cs subslice)"

text \<open>\<^verbatim>\<open>pacman\<close>: the package manager under \<^verbatim>\<open>sudo\<close>, on the terminal.\<close>

definition pacman ::
  "(string list \<Rightarrow> string \<times> error option) \<Rightarrow> string list \<Rightarrow> event list \<times> error option" where
  "pacman sudo args =
     (let cmdArgs = [''pacman''] @ args
      in ([Exec (''sudo'' # cmdArgs)], snd (sudo cmdArgs)))"

text \<open>\<^verbatim>\<open>exitOnError(err)\<close> followed by the rest of the program: an error is
  printed and ends the process with status 1.\<close>

definition exitOnError :: "error option \<Rightarrow> event list \<Rightarrow> event list" where
  "exitOnError err rest =
     (case err of
        Some e \<Rightarrow> [PrintlnErr e, Exit 1]
      | None \<Rightarrow> rest)"

text \<open>The world of \<^verbatim>\<open>main\<close>: the help flag and the program's name, the
  behaviour of \<^verbatim>\<open>sudo\<close>, the changelog queries in the order they are run,
  \<^verbatim>\<open>os.Open\<close> when the monitor is created, the log file when its tail is
  read, the order in which the second snapshot is ranged over, the error of
  \<^verbatim>\<open>diff.Text\<close>, and the lines the news goroutine sends before it closes
  the channel.\<close>

record main_env =
  helpFlag :: bool
  Args0 :: string
  run_sudo :: "string list \<Rightarrow> string \<times> error option"
  changelogs :: "nat \<Rightarrow> query_run"
  os_open :: "string \<Rightarrow> error + os_file"
  log_after :: os_file
  range_order :: "string list"
  diff_err :: "string \<Rightarrow> string \<Rightarrow> string option"
  news :: "string list"

text \<open>The loop of \<^verbatim>\<open>main\<close> over the lines of the log tail.\<close>

fun alpm_loop :: "bool \<Rightarrow> string list \<Rightarrow> event list \<times> bool" where
  "alpm_loop foundALPMLogs [] = ([], foundALPMLogs)"
| "alpm_loop foundALPMLogs (line # rest) =
     (if Contains line PACMAN_LOG_ALPM_MARKER
      then
        let (evs, found) = alpm_loop True rest
        in ((if \<not> foundALPMLogs then [Println ''\<newline>ALPM logs:''] else [])
            @ [Println line] @ evs, found)
      else alpm_loop foundALPMLogs rest)"

text \<open>The end of \<^verbatim>\<open>main\<close>: an empty line, then the news as they arrive.\<close>

definition drain_news :: "main_env \<Rightarrow> event list" where
  "drain_news env = Println [] # map Println (news env)"

text \<open>\<^verbatim>\<open>main\<close> from the test of \<^verbatim>\<open>foundALPMLogs\<close> on.\<close>

definition after_scan :: "main_env \<Rightarrow> (string \<rightharpoonup> string) \<Rightarrow> bool \<Rightarrow> event list" where
  "after_scan env changelogsPre foundALPMLogs =
     (if foundALPMLogs
      then
        Call ''getChangelogs'' [] #
        (case getChangelogs (changelogs env 1) of
           Inl e \<Rightarrow> exitOnError (Some e) []
         | Inr changelogsPost \<Rightarrow>
             Call ''showChangelogDiff'' [] #
             showChangelogDiff (diff_err env) changelogsPre changelogsPost (range_order env)
             @ Call ''removeSuperfluousPackages'' [] #
               (let (evs, err) = removeSuperfluousPackages (run_sudo env)
                in evs @ exitOnError err (drain_news env)))
      else drain_news env)"

definition main :: "main_env \<Rightarrow> event list" where
  "main env =
     (if helpFlag env then [Print (''Usage: '' @ Args0 env @ [NL] @ HELP_STR)]
      else
        Go ''readNews'' #
        Call ''pacman'' [''-Sc'', ''--noconfirm''] #
        (let (evs, err) = pacman (run_sudo env) [''-Sc'', ''--noconfirm'']
         in evs @ exitOnError err
           (Call ''getChangelogs'' [] #
            (case getChangelogs (changelogs env 0) of
               Inl e \<Rightarrow> exitOnError (Some e) []
             | Inr changelogsPre \<Rightarrow>
                 Call ''newLogMonitor'' [PACMAN_LOG_PATH] #
                 (case newLogMonitor (os_open env) PACMAN_LOG_PATH of
                    Inl e \<Rightarrow> exitOnError (Some e) []
                  | Inr logMon \<Rightarrow>
                      Call ''pacman'' [''-Syu'', ''--noconfirm''] #
                      (let (evs, err) = pacman (run_sudo env) [''-Syu'', ''--noconfirm'']
                       in evs @ exitOnError err
                         (let (evs, foundALPMLogs) =
                                alpm_loop False (lines logMon (log_after env))
                          in evs @ after_scan env changelogsPre foundALPMLogs)))))))"

text \<open>How often a trace calls a function of the program.\<close>

fun called :: "string \<Rightarrow> event list \<Rightarrow> nat" where
  "called name [] = 0"
| "called name (Call f args # evs) = (if f = name then 1 else 0) + called name evs"
| "called name (e # evs) = called name evs"

text \<open>The run reads the log tail and finds a line with the marker in it.\<close>

definition marker_found :: "main_env \<Rightarrow> bool" where
  "marker_found env \<longleftrightarrow>
     \<not> helpFlag env
     \<and> snd (run_sudo env [''pacman'', ''-Sc'', ''--noconfirm'']) = None
     \<and> (case getChangelogs (changelogs env 0) of
          Inl e \<Rightarrow> False
        | Inr changelogsPre \<Rightarrow>
            (case newLogMonitor (os_open env) PACMAN_LOG_PATH of
               Inl e \<Rightarrow> False
             | Inr logMon \<Rightarrow>
                 snd (run_sudo env [''pacman'', ''-Syu'', ''--noconfirm'']) = None
                 \<and> (\<exists>line\<in>set (lines logMon (log_after env)).
                       Contains line PACMAN_LOG_ALPM_MARKER)))"

text \<open>The run reads the log tail.\<close>

definition tail_read :: "main_env \<Rightarrow> bool" where
  "tail_read env \<longleftrightarrow>
     \<not> helpFlag env
     \<and> snd (run_sudo env [''pacman'', ''-Sc'', ''--noconfirm'']) = None
     \<and> (case getChangelogs (changelogs env 0) of
          Inl e \<Rightarrow> False
        | Inr changelogsPre \<Rightarrow>
            (case newLogMonitor (os_open env) PACMAN_LOG_PATH of
               Inl e \<Rightarrow> False
             | Inr logMon \<Rightarrow> snd (run_sudo env [''pacman'', ''-Syu'', ''--noconfirm'']) = None))"

definition snapshot_ok :: "query_run \<Rightarrow> bool" where
  "snapshot_ok run \<longleftrightarrow> (case getChangelogs run of Inl e \<Rightarrow> False | Inr m \<Rightarrow> True)"

definition alpm_line :: string where
  "alpm_line = ''[2024-01-01T00:00:00+0000] [ALPM] upgraded foo (1-1 -> 1-2)''"

definition sudo_ok :: "string list \<Rightarrow> string \<times> error option" where
  "sudo_ok args = (if args = [''pacman'', ''-Qqtd''] then ([], Some (ExitError 1)) else ([], None))"

text \<open>A run whose upgrade appends one marker line and whose second changelog
  query exits with status 1, and a run whose upgrade appends nothing.\<close>

definition failing_post_env :: main_env where
  "failing_post_env =
     \<lparr>helpFlag = False, Args0 = ''archupd'', run_sudo = sudo_ok,
      changelogs = (\<lambda>n. if n = 0 then query_ok small_output
                         else (query_ok small_output)\<lparr>wait_err := Some (ExitError 1)\<rparr>),
      os_open = log_only [],
      log_after = regular_file (alpm_line @ [NL]),
      range_order = [''a''], diff_err = no_diff_err, news = [''No Arch Linux news.'']\<rparr>"

definition quiet_env :: main_env where
  "quiet_env =
     \<lparr>helpFlag = False, Args0 = ''archupd'', run_sudo = sudo_ok,
      changelogs = (\<lambda>n. query_ok small_output),
      os_open = log_only [],
      log_after = regular_file [],
      range_order = [''a''], diff_err = no_diff_err, news = [''No Arch Linux news.'']\<rparr>"

section \<open>Properties\<close>

subsection \<open>Scanner and changelog snapshotter\<close>

lemma IndexByte_None: "IndexByte xs c = None \<longleftrightarrow> c \<notin> set xs"
  by (induction xs) auto

lemma IndexByte_first: "c \<notin> set line \<Longrightarrow> IndexByte (line @ c # rest) c = Some (length line)"
  by (induction line) auto

lemma IndexByte_take:
  "c \<notin> set line \<Longrightarrow> length line < n \<Longrightarrow> IndexByte (take n (line @ c # rest)) c = Some (length line)"
proof -
  assume a: "c \<notin> set line" and b: "length line < n"
  then obtain k where k: "n = length line + Suc k"
    by (metis less_imp_Suc_add add_Suc_right)
  have "take n (line @ c # rest) = line @ c # take k rest"
    by (simp add: k)
  then show ?thesis using a by (simp add: IndexByte_first)
qed

lemma Scan_Nil: "Scan [] = []"
  by (subst Scan.simps) (simp add: ScanLines_def MaxScanTokenSize_def)

lemma Scan_line:
  assumes "NL \<notin> set line" and "length line < MaxScanTokenSize"
  shows "Scan (line @ NL # rest) = dropCR line # Scan rest"
proof -
  have "take (length line) (take MaxScanTokenSize (line @ NL # rest)) = line"
    using assms(2) by (simp add: take_take min_def)
  then show ?thesis
    using assms IndexByte_take [of NL line MaxScanTokenSize rest]
    by (subst Scan.simps) (simp add: ScanLines_def)
qed

lemma Scan_last:
  assumes "NL \<notin> set rest" and "rest \<noteq> []" and "length rest < MaxScanTokenSize"
  shows "Scan rest = [dropCR rest]"
proof -
  have "IndexByte (take MaxScanTokenSize rest) NL = None"
    using assms(1) by (simp add: IndexByte_None) (meson in_set_takeD)
  then show ?thesis
    using assms by (subst Scan.simps) (simp add: ScanLines_def Scan_Nil)
qed

lemma Scan_too_long:
  assumes "NL \<notin> set (take MaxScanTokenSize input)" and "MaxScanTokenSize \<le> length input"
  shows "Scan input = []"
  using assms by (subst Scan.simps) (simp add: ScanLines_def IndexByte_None [symmetric])

lemma raw_lines_line:
  "NL \<notin> set line \<Longrightarrow> raw_lines (line @ NL # rest) = (line @ [NL]) # raw_lines rest"
  by (induction line) auto

lemma raw_lines_eq_Nil [simp]: "raw_lines t = [] \<longleftrightarrow> t = []"
  by (induction t) (auto split: list.splits)

lemma raw_lines_last:
  "NL \<notin> set rest \<Longrightarrow> rest \<noteq> [] \<Longrightarrow> raw_lines rest = [rest]"
proof (induction rest)
  case Nil
  then show ?case by simp
next
  case (Cons c cs)
  then show ?case by (cases "cs = []") (auto split: list.splits)
qed

lemma Scan_fits:
  "\<forall>l\<in>set (raw_lines inp). fits_buffer l \<Longrightarrow>
     Scan inp = map (\<lambda>l. dropCR (chomp l)) (raw_lines inp)"
proof (induction "length inp" arbitrary: inp rule: less_induct)
  case less
  show ?case
  proof (cases "inp = []")
    case True
    then show ?thesis by (simp add: Scan_Nil)
  next
    case False
    show ?thesis
    proof (cases "NL \<in> set inp")
      case False
      then have rl: "raw_lines inp = [inp]"
        using \<open>inp \<noteq> []\<close> by (rule raw_lines_last)
      have "last inp \<noteq> NL"
        using False \<open>inp \<noteq> []\<close> last_in_set by metis
      then have "length inp < MaxScanTokenSize" and "chomp inp = inp"
        using less.prems rl by (simp_all add: fits_buffer_def chomp_def)
      then show ?thesis
        using Scan_last [OF False \<open>inp \<noteq> []\<close>] rl by simp
    next
      case True
      then obtain line rest where t: "inp = line @ NL # rest" and n: "NL \<notin> set line"
        by (meson split_list_first)
      have rl: "raw_lines (line @ NL # rest) = (line @ [NL]) # raw_lines rest"
        using n by (rule raw_lines_line)
      with less.prems have p: "fits_buffer (line @ [NL])"
        and r: "\<forall>l\<in>set (raw_lines rest). fits_buffer l"
        by (simp_all add: t)
      from p have len: "length line < MaxScanTokenSize"
        by (simp add: fits_buffer_def)
      have "Scan rest = map (\<lambda>l. dropCR (chomp l)) (raw_lines rest)"
        using less.hyps [of rest] r by (simp add: t)
      then show ?thesis
        using Scan_line [OF n len, of rest] by (simp add: t rl chomp_def)
    qed
  qed
qed

lemma plain_line_fits:
  assumes "plain_line l"
  shows "fits_buffer l \<and> scanner_line l = l"
proof -
  from assms have l: "l \<noteq> []" "last l = NL" and len: "length l \<le> MaxScanTokenSize"
    by (simp_all add: plain_line_def)
  have b: "butlast l @ [NL] = l"
    using l append_butlast_last_id by metis
  have "dropCR (butlast l) = butlast l"
    using assms by (auto simp: plain_line_def dropCR_def)
  then show ?thesis
    using l len b by (simp add: fits_buffer_def scanner_line_def chomp_def)
qed

lemma FindSubmatch_not_Nil: "FindSubmatch line = Some name \<Longrightarrow> name \<noteq> []"
  by (auto simp: FindSubmatch_def Let_def split: if_splits)

lemma agrees_flush:
  "agrees s cur m \<Longrightarrow> flush s = (case cur of None \<Rightarrow> m | Some (pkg, buf) \<Rightarrow> m(pkg \<mapsto> buf))"
  by (auto simp: agrees_def flush_def split: option.splits)

lemma foldl_scan_line_spec:
  "\<forall>l\<in>set ls. l \<noteq> [] \<and> last l = NL \<Longrightarrow> agrees s cur m \<Longrightarrow>
     flush (foldl scan_line s (map butlast ls)) = spec_accumulate cur m ls"
proof (induction ls arbitrary: s cur m)
  case Nil
  then show ?case
    by (cases cur) (auto simp: agrees_flush)
next
  case (Cons l ls)
  from Cons.prems have l: "l \<noteq> []" "last l = NL" and ls: "\<forall>l\<in>set ls. l \<noteq> [] \<and> last l = NL"
    by simp_all
  have h: "spec_header l = FindSubmatch (butlast l)"
    using l by (simp add: spec_header_def chomp_def)
  have bl: "butlast l @ [NL] = l"
    using l by (metis append_butlast_last_id)
  show ?case
  proof (cases "FindSubmatch (butlast l)")
    case None
    let ?s = "s\<lparr>currLog := currLog s @ l\<rparr>"
    let ?cur = "case cur of None \<Rightarrow> None | Some (pkg, buf) \<Rightarrow> Some (pkg, buf @ l)"
    have a: "agrees ?s ?cur m"
      using Cons.prems(2) by (auto simp: agrees_def split: option.splits)
    have "scan_line s (butlast l) = ?s"
      using None bl by (simp add: scan_line_def)
    then show ?thesis
      using Cons.IH [OF ls a] None h by simp
  next
    case (Some name)
    let ?s = "\<lparr>result = flush s, currPkg = name, currLog = []\<rparr>"
    have a: "agrees ?s (Some (name, [])) (flush s)"
      using FindSubmatch_not_Nil [OF Some] by (simp add: agrees_def)
    have "scan_line s (butlast l) = ?s"
      using Some by (simp add: scan_line_def)
    then show ?thesis
      using Cons.IH [OF ls a] Some h agrees_flush [OF Cons.prems(2)] by simp
  qed
qed

lemma getChangelogs_fits:
  assumes "\<forall>l\<in>set (raw_lines inp). fits_buffer l"
  shows "getChangelogs (query_ok inp) =
           Inr (spec_accumulate None Map.empty (map scanner_line (raw_lines inp)))"
proof -
  have e: "\<forall>l\<in>set (map scanner_line (raw_lines inp)). l \<noteq> [] \<and> last l = NL"
    by (simp add: scanner_line_def)
  have a: "agrees \<lparr>result = Map.empty, currPkg = [], currLog = []\<rparr> None Map.empty"
    by (simp add: agrees_def)
  have "map butlast (map scanner_line (raw_lines inp)) = Scan inp"
    using Scan_fits [OF assms] by (simp add: scanner_line_def comp_def)
  then show ?thesis
    using foldl_scan_line_spec [OF e a]
    by (simp add: getChangelogs_def query_ok_def)
qed

lemma getChangelogs_plain:
  assumes "\<forall>l\<in>set (raw_lines inp). plain_line l"
  shows "getChangelogs (query_ok inp) = Inr (spec_changelogs inp)"
proof -
  have "\<forall>l\<in>set (raw_lines inp). fits_buffer l"
    using assms plain_line_fits by blast
  moreover have "map scanner_line (raw_lines inp) = raw_lines inp"
    using assms plain_line_fits by (simp add: map_idI)
  ultimately show ?thesis
    using getChangelogs_fits [of inp] by (simp add: spec_changelogs_def)
qed

lemma scenario_plain: "\<forall>l\<in>set (raw_lines scenario_output). plain_line l"
  by (simp add: scenario_output_def NL_def CR_def plain_line_def MaxScanTokenSize_def)

lemma scenario_spec:
  "spec_changelogs scenario_output =
     [''foo'' \<mapsto> ''line1\<newline>'', ''bar'' \<mapsto> ''line2\<newline>line3\<newline>'']"
  by (simp add: scenario_output_def spec_changelogs_def spec_header_def chomp_def
      FindSubmatch_def NL_def)

lemma small_plain: "\<forall>l\<in>set (raw_lines small_output). plain_line l"
  by (simp add: small_output_def NL_def CR_def plain_line_def MaxScanTokenSize_def)

lemma small_spec: "spec_changelogs small_output = [''a'' \<mapsto> ''x\<newline>'']"
  by (simp add: small_output_def spec_changelogs_def spec_header_def chomp_def
      FindSubmatch_def NL_def)

text \<open>
  Claim C1, as amended. When the changelog query starts and exits with status
  0 and every line of its output fits the scanner's buffer, \<open>getChangelogs\<close>
  yields the mapping of the specification's algorithm run on the lines as the
  scanner delivers them: a carriage return before the newline is dropped and
  every line, also an unterminated last one, is followed by a newline. When
  every line ends in a newline without a carriage return before it, that is
  the specification's algorithm on the output itself: a header line starts a
  new package, every other line is appended as it is, and the last package is
  flushed at the end. The specification's scenario parses to
  \<open>{foo: "line1\n", bar: "line2\nline3\n"}\<close>.
\<close>

theorem getChangelogs_refines_spec:
  "((\<forall>l\<in>set (raw_lines inp). fits_buffer l) \<longrightarrow>
      getChangelogs (query_ok inp) =
        Inr (spec_accumulate None Map.empty (map scanner_line (raw_lines inp))))
   \<and> ((\<forall>l\<in>set (raw_lines inp). plain_line l) \<longrightarrow>
      getChangelogs (query_ok inp) = Inr (spec_changelogs inp))
   \<and> getChangelogs (query_ok scenario_output) =
       Inr [''foo'' \<mapsto> ''line1\<newline>'', ''bar'' \<mapsto> ''line2\<newline>line3\<newline>'']"
  using getChangelogs_fits [of inp] getChangelogs_plain [of inp]
    getChangelogs_plain [OF scenario_plain] scenario_spec
  by simp

theorem getChangelogs_refines_spec_witness:
  "raw_lines small_output = [''Changelog for a:\<newline>'', ''x\<newline>'']
   \<and> plain_line ''Changelog for a:\<newline>'' \<and> plain_line ''x\<newline>''
   \<and> fits_buffer ''Changelog for a:\<newline>'' \<and> fits_buffer ''x\<newline>''
   \<and> getChangelogs (query_ok small_output) = Inr [''a'' \<mapsto> ''x\<newline>'']"
proof -
  have r: "raw_lines small_output = [''Changelog for a:\<newline>'', ''x\<newline>'']"
    by (simp add: small_output_def NL_def)
  have p: "plain_line ''Changelog for a:\<newline>''" "plain_line ''x\<newline>''"
    using small_plain by (simp_all add: r)
  have "getChangelogs (query_ok small_output) = Inr (spec_changelogs small_output)"
    using getChangelogs_refines_spec [of small_output] small_plain by blast
  then show ?thesis
    using r p plain_line_fits small_spec by simp
qed

text \<open>
  Claim C1 as stated fails on an output with a line that ends in carriage
  return and newline: the code stores \<open>"line1\n"\<close> for \<open>foo\<close>, the line taken as
  it is would be \<open>"line1\r\n"\<close>.
\<close>

lemma crlf_Scan: "Scan crlf_output = [''Changelog for foo:'', ''line1'']"
proof -
  have 1: "Scan (''Changelog for foo:'' @ NL # r) = dropCR ''Changelog for foo:'' # Scan r" for r
    by (rule Scan_line) (simp_all add: NL_def MaxScanTokenSize_def)
  have 2: "Scan ((''line1'' @ [CR]) @ NL # []) = dropCR (''line1'' @ [CR]) # Scan []"
    by (rule Scan_line) (simp_all add: NL_def CR_def MaxScanTokenSize_def)
  have e: "''line1'' @ [CR, NL] = (''line1'' @ [CR]) @ NL # []"
    by simp
  have "Scan crlf_output = dropCR ''Changelog for foo:'' # dropCR (''line1'' @ [CR]) # Scan []"
    unfolding crlf_output_def 1 e 2 ..
  then show ?thesis
    by (simp add: Scan_Nil dropCR_def CR_def)
qed

theorem getChangelogs_crlf_counterexample:
  "getChangelogs (query_ok crlf_output) = Inr [''foo'' \<mapsto> ''line1\<newline>'']
   \<and> spec_changelogs crlf_output = [''foo'' \<mapsto> ''line1'' @ [CR, NL]]
   \<and> getChangelogs (query_ok crlf_output) \<noteq> Inr (spec_changelogs crlf_output)"
proof -
  have g: "getChangelogs (query_ok crlf_output) = Inr [''foo'' \<mapsto> ''line1\<newline>'']"
    by (simp add: getChangelogs_def query_ok_def crlf_Scan scan_line_def FindSubmatch_def
        flush_def NL_def)
  have s: "spec_changelogs crlf_output = [''foo'' \<mapsto> ''line1'' @ [CR, NL]]"
    by (simp add: crlf_output_def spec_changelogs_def spec_header_def chomp_def
        FindSubmatch_def NL_def CR_def)
  have "[''foo'' \<mapsto> ''line1\<newline>''] ''foo'' \<noteq> [''foo'' \<mapsto> ''line1'' @ [CR, NL]] ''foo''"
    by (simp add: CR_def)
  then have "[''foo'' \<mapsto> ''line1\<newline>''] \<noteq> [''foo'' \<mapsto> ''line1'' @ [CR, NL]]"
    by metis
  with g s show ?thesis by simp
qed

subsection \<open>Differ and log tail\<close>

lemma rendered_pkgs_append: "rendered_pkgs (xs @ ys) = rendered_pkgs xs @ rendered_pkgs ys"
  by (induction xs rule: rendered_pkgs.induct) simp_all

lemma rendered_pkgs_msg:
  "rendered_pkgs (case m of None \<Rightarrow> [] | Some msg \<Rightarrow> [Println msg]) = []"
  by (cases m) simp_all

lemma diff_loop_rendered:
  "rendered_pkgs (fst (diff_loop de pre post f order)) =
     map (\<lambda>p. (p @ '' (before)'', p @ '' (after)'')) (filter (differs pre post) order)"
proof (induction order arbitrary: f)
  case Nil
  then show ?case by simp
next
  case (Cons p ps)
  show ?case
    using Cons.IH [of f] Cons.IH [of True]
    by (auto simp: differs_def rendered_pkgs_append rendered_pkgs_msg
        split: option.splits prod.splits)
qed

lemma diff_loop_found:
  "snd (diff_loop de pre post f order) \<longleftrightarrow> f \<or> (\<exists>p\<in>set order. differs pre post p)"
proof (induction order arbitrary: f)
  case Nil
  then show ?case by simp
next
  case (Cons p ps)
  show ?case
    using Cons.IH [of f] Cons.IH [of True]
    by (auto simp: differs_def split: option.splits prod.splits)
qed

lemma diff_loop_silent:
  "\<forall>p\<in>set order. \<not> differs pre post p \<Longrightarrow> fst (diff_loop de pre post f order) = []"
proof (induction order arbitrary: f)
  case Nil
  then show ?case by simp
next
  case (Cons p ps)
  then show ?case
    by (auto simp: differs_def split: option.splits prod.splits)
qed

lemma rendered_showChangelogDiff:
  "rendered pkg (showChangelogDiff de pre post order) \<longleftrightarrow> pkg \<in> set order \<and> differs pre post pkg"
proof -
  have "rendered_pkgs (showChangelogDiff de pre post order) =
          map (\<lambda>p. (p @ '' (before)'', p @ '' (after)'')) (filter (differs pre post) order)"
    using diff_loop_rendered [of de pre post False order]
    by (simp add: showChangelogDiff_def rendered_pkgs_append case_prod_beta)
  then show ?thesis
    by (auto simp: rendered_def)
qed

text \<open>
  Claim C7. When the range over \<open>changelogsPost\<close> visits exactly its keys, the
  differ renders a package iff the package is in both mappings with differing
  text; for a key of \<open>changelogsPost\<close> it renders nothing iff the package is
  absent from \<open>changelogsPre\<close> or its two texts are equal; packages outside
  \<open>changelogsPost\<close> are not considered; and the only output is the line
  "No updated changelogs." iff no package is rendered.
\<close>

theorem changelog_diff_symmetry:
  assumes "set order = dom changelogsPost"
  shows "(rendered pkg (showChangelogDiff de changelogsPre changelogsPost order) \<longleftrightarrow>
            pkg \<in> dom changelogsPre \<and> pkg \<in> dom changelogsPost
            \<and> changelogsPre pkg \<noteq> changelogsPost pkg)
         \<and> (pkg \<in> dom changelogsPost \<longrightarrow>
              (\<not> rendered pkg (showChangelogDiff de changelogsPre changelogsPost order) \<longleftrightarrow>
                 pkg \<notin> dom changelogsPre \<or> changelogsPre pkg = changelogsPost pkg))
         \<and> (pkg \<notin> dom changelogsPost \<longrightarrow>
               \<not> rendered pkg (showChangelogDiff de changelogsPre changelogsPost order))
         \<and> ((\<forall>p. \<not> rendered p (showChangelogDiff de changelogsPre changelogsPost order)) \<longleftrightarrow>
               showChangelogDiff de changelogsPre changelogsPost order =
                 [Println ''\<newline>No updated changelogs.''])"
proof -
  let ?T = "showChangelogDiff de changelogsPre changelogsPost order"
  have r: "rendered p ?T \<longleftrightarrow> differs changelogsPre changelogsPost p" for p
    using assms by (auto simp: rendered_showChangelogDiff differs_def)
  have "(\<forall>p. \<not> rendered p ?T) \<longleftrightarrow> ?T = [Println ''\<newline>No updated changelogs.'']"
  proof
    assume n: "\<forall>p. \<not> rendered p ?T"
    then have a: "\<forall>p\<in>set order. \<not> differs changelogsPre changelogsPost p"
      using r by simp
    then have "\<not> snd (diff_loop de changelogsPre changelogsPost False order)"
      by (simp add: diff_loop_found)
    then show "?T = [Println ''\<newline>No updated changelogs.'']"
      using diff_loop_silent [OF a, of de False]
      by (simp add: showChangelogDiff_def case_prod_beta)
  next
    assume "?T = [Println ''\<newline>No updated changelogs.'']"
    then show "\<forall>p. \<not> rendered p ?T"
      by (simp add: rendered_def)
  qed
  then show ?thesis
    using r [of pkg] by (auto simp: differs_def)
qed

theorem changelog_diff_symmetry_witness:
  "set [''c'', ''a'', ''b''] = dom post_example
   \<and> rendered ''a'' (showChangelogDiff no_diff_err pre_example post_example [''c'', ''a'', ''b''])
   \<and> \<not> rendered ''b'' (showChangelogDiff no_diff_err pre_example post_example [''c'', ''a'', ''b''])
   \<and> \<not> rendered ''c'' (showChangelogDiff no_diff_err pre_example post_example [''c'', ''a'', ''b''])
   \<and> showChangelogDiff no_diff_err pre_example post_example [''c'', ''a'', ''b''] \<noteq>
       [Println ''\<newline>No updated changelogs.'']"
proof -
  have d: "set [''c'', ''a'', ''b''] = dom post_example"
    by (auto simp: post_example_def)
  have a: "''a'' \<in> dom pre_example \<and> ''a'' \<in> dom post_example
           \<and> pre_example ''a'' \<noteq> post_example ''a''"
    by (simp add: pre_example_def post_example_def)
  have b: "pre_example ''b'' = post_example ''b''"
    by (simp add: pre_example_def post_example_def)
  have c: "''c'' \<notin> dom pre_example"
    by (simp add: pre_example_def)
  show ?thesis
    using changelog_diff_symmetry [OF d, of "''a''" no_diff_err pre_example]
      changelog_diff_symmetry [OF d, of "''b''" no_diff_err pre_example]
      changelog_diff_symmetry [OF d, of "''c''" no_diff_err pre_example]
      d a b c
    by blast
qed



subsection \<open>State store and feed poller\<close>

lemma news_loop_fst:
  "fst (news_loop fmt latest f items) =
     (if filter (\<lambda>i. latest < Time i) items = [] then []
      else (if \<not> f then [Send ''Arch Linux news:''] else [])
           @ map (\<lambda>i. Send (item_line fmt i)) (filter (\<lambda>i. latest < Time i) items))"
proof (induction items arbitrary: f)
  case Nil
  then show ?case by simp
next
  case (Cons x xs)
  show ?case
    using Cons.IH [of f] Cons.IH [of True]
    by (auto simp: case_prod_beta)
qed

lemma news_loop_snd:
  "snd (news_loop fmt latest f items) \<longleftrightarrow> f \<or> filter (\<lambda>i. latest < Time i) items \<noteq> []"
proof (induction items arbitrary: f)
  case Nil
  then show ?case by simp
next
  case (Cons x xs)
  show ?case
    using Cons.IH [of f] Cons.IH [of True]
    by (auto simp: case_prod_beta)
qed

lemma newest_is_Max:
  assumes "sorted_wrt (\<lambda>a b. Time b \<le> Time a) (x # xs)"
  shows "Time x = Max (Time ` set (x # xs))"
proof -
  have "\<forall>y\<in>set (x # xs). Time y \<le> Time x"
    using assms by auto
  then show ?thesis
    by (intro Max_eqI [symmetric]) auto
qed

lemma announce_sorted:
  assumes perm: "mset (SortSlice env feedItems) = mset feedItems"
    and srt: "sorted_wrt (\<lambda>a b. Time b \<le> Time a) (SortSlice env feedItems)"
    and ne: "feedItems \<noteq> []"
  shows "announce env state feedItems =
           (news_lines env
              (filter (\<lambda>i. LatestItemTime state < Time i) (SortSlice env feedItems)),
            state\<lparr>LatestItemTime := Max (Time ` set feedItems)\<rparr>)"
proof -
  from perm ne obtain x xs where s: "SortSlice env feedItems = x # xs"
    by (cases "SortSlice env feedItems") auto
  have "set (x # xs) = set feedItems"
    using perm s by (metis mset_eq_setD)
  then have m: "Time x = Max (Time ` set feedItems)"
    using newest_is_Max [of x xs] srt s by simp
  show ?thesis
    using m news_loop_fst [of "Format env" "LatestItemTime state" False "x # xs"]
      news_loop_snd [of "Format env" "LatestItemTime state" False "x # xs"]
    by (simp add: announce_def s case_prod_beta news_lines_def del: news_loop.simps)
qed

lemma readNews_decoded:
  assumes "readState env = Inr (state, diag)"
    and "NewRequestError env = None"
    and "Do env (request_header state) = Response resp"
    and "StatusCode resp = 200"
    and "XMLDecode env (Body resp) = Inr feedItems"
  shows "readNews env =
           (case writeState env (snd (announce env (capture resp state) feedItems)) of
              Inl p \<Rightarrow> Inl p
            | Inr written \<Rightarrow>
                Inr (diag @ [HttpGet NEWSFEED_URL (request_header state)]
                     @ fst (announce env (capture resp state) feedItems) @ written @ [Close]))"
  using assms by (simp add: readNews_def case_prod_beta split: sum.splits)

lemma readState_writeState:
  "readState env = Inr r \<Longrightarrow> writeState env st = Inr (trace_of (writeState env st))"
  by (auto simp: readState_def writeState_def trace_of_def split: sum.splits option.splits)

lemma LatestItemTime_capture [simp]: "LatestItemTime (capture resp state) = LatestItemTime state"
  by (simp add: capture_def split: list.splits)

lemma written_states_append:
  "written_states (xs @ ys) = written_states xs @ written_states ys"
  by (induction xs rule: written_states.induct) simp_all

lemma written_states_Sends: "written_states (map (\<lambda>i. Send (f i)) xs) = []"
  by (induction xs) simp_all

lemma written_states_news_loop: "written_states (fst (news_loop fmt latest f items)) = []"
  by (simp add: news_loop_fst written_states_Sends)

lemma written_states_announce: "written_states (fst (announce env st items)) = []"
  by (auto simp: announce_def Let_def case_prod_beta written_states_append
      written_states_news_loop split: list.splits simp del: news_loop.simps)

lemma news_loop_updall_written:
  "written_states (fst (news_loop_updall fmt latest f items)) = []"
  by (induction items arbitrary: f) (auto simp: case_prod_beta)

lemma written_states_announce_updall: "written_states (fst (announce_updall env st items)) = []"
  by (auto simp: announce_updall_def Let_def case_prod_beta written_states_append
      news_loop_updall_written split: list.splits simp del: news_loop_updall.simps)

lemma readState_diag: "readState env = Inr (state, diag) \<Longrightarrow> written_states diag = []"
  by (auto simp: readState_def split: sum.splits open_result.splits if_splits)

lemma readState_updall_diag:
  "readState_updall env = Inr (state, diag) \<Longrightarrow> written_states diag = []"
  by (auto simp: readState_updall_def split: sum.splits open_result.splits)

lemma LastModified_announce:
  "LastModified (snd (announce env st items)) = LastModified st"
  by (auto simp: announce_def Let_def case_prod_beta split: list.splits)

lemma LastModified_announce_updall:
  "LastModified (snd (announce_updall env st items)) = LastModified st"
  by (auto simp: announce_updall_def Let_def case_prod_beta split: list.splits)

lemma writeState_ok:
  "stateFileName env = Inr name \<Longrightarrow> MkdirAll env (Dir env name) = None \<Longrightarrow>
     Create env name = None \<Longrightarrow> writeState env st = Inr [WriteFile name st]"
  by (simp add: writeState_def)

lemma writeState_updall_ok:
  "stateFileName_updall env = Inr name \<Longrightarrow> Create env name = None \<Longrightarrow>
     writeState_updall env st = Inr [WriteFile name st]"
  by (simp add: writeState_updall_def)

text \<open>
  Claim C5. In a poll that fetches and decodes a feed, which
  \<^verbatim>\<open>sort.Slice\<close> rearranges newest first, the item lines sent are those of
  the items whose timestamp is strictly after the stored watermark, each such
  item once and newest first, after the heading line; no item at or before the
  watermark is sent. (Every other poll returns before any item exists.) With the state file absent the state
  is zero-valued and the request carries no \<^verbatim>\<open>If-Modified-Since\<close> header; if
  then all items are newer than the zero time, every item has its line (three
  lines for three items), and the state handed to \<open>writeState\<close> has the newest
  item's timestamp as its watermark.
\<close>

theorem no_duplicate_announcement:
  assumes rs: "readState env = Inr (state, diag)"
    and f: "fetched env state resp"
    and x: "XMLDecode env (Body resp) = Inr feedItems"
    and perm: "mset (SortSlice env feedItems) = mset feedItems"
    and srt: "sorted_wrt (\<lambda>a b. Time b \<le> Time a) (SortSlice env feedItems)"
    and new: "new = filter (\<lambda>i. LatestItemTime state < Time i) (SortSlice env feedItems)"
    and final: "final =
           (if feedItems = [] then capture resp state
            else (capture resp state)\<lparr>LatestItemTime := Max (Time ` set feedItems)\<rparr>)"
  shows "readNews env =
           Inr (diag @ [HttpGet NEWSFEED_URL (request_header state)]
                @ (if feedItems = [] then [Send ''No Arch Linux news (empty feed).'']
                   else if new = [] then [Send ''No Arch Linux news.'']
                   else Send ''Arch Linux news:'' # map (\<lambda>i. Send (item_line (Format env) i)) new)
                @ trace_of (writeState env final) @ [Close])
         \<and> mset new = filter_mset (\<lambda>i. LatestItemTime state < Time i) (mset feedItems)
         \<and> (\<forall>name msg. stateFileName env = Inr name \<and> Open env name = OpenError True msg
               \<longrightarrow> state = zeroState \<and> diag = [])
         \<and> (state = zeroState \<and> (\<forall>i\<in>set feedItems. 0 < Time i)
               \<longrightarrow> request_header state = [] \<and> new = SortSlice env feedItems
                   \<and> length new = length feedItems)"
proof -
  have a: "announce env (capture resp state) feedItems =
             (if feedItems = [] then [Send ''No Arch Linux news (empty feed).'']
              else news_lines env new, final)"
  proof (cases "feedItems = []")
    case True
    then have "SortSlice env feedItems = []"
      using perm by simp
    then show ?thesis
      using True final by (simp add: announce_def)
  next
    case False
    then show ?thesis
      using announce_sorted [OF perm srt False, of "capture resp state"] new final by simp
  qed
  obtain wr where w: "writeState env final = Inr wr"
    using readState_writeState [OF rs] by blast
  then have t: "trace_of (writeState env final) = wr"
    by (simp add: trace_of_def)
  from f have f1: "NewRequestError env = None"
    and f2: "Do env (request_header state) = Response resp"
    and f3: "StatusCode resp = 200"
    by (simp_all add: fetched_def)
  have 1: "readNews env =
           Inr (diag @ [HttpGet NEWSFEED_URL (request_header state)]
                @ (if feedItems = [] then [Send ''No Arch Linux news (empty feed).'']
                   else if new = [] then [Send ''No Arch Linux news.'']
                   else Send ''Arch Linux news:'' # map (\<lambda>i. Send (item_line (Format env) i)) new)
                @ trace_of (writeState env final) @ [Close])"
    using readNews_decoded [OF rs f1 f2 f3 x]
    by (simp add: a w news_lines_def trace_of_def)
  have 2: "mset new = filter_mset (\<lambda>i. LatestItemTime state < Time i) (mset feedItems)"
    using perm by (simp add: new mset_filter)
  have 3: "\<forall>name msg. stateFileName env = Inr name \<and> Open env name = OpenError True msg
               \<longrightarrow> state = zeroState \<and> diag = []"
    using rs by (auto simp: readState_def)
  have 4: "state = zeroState \<and> (\<forall>i\<in>set feedItems. 0 < Time i)
               \<longrightarrow> request_header state = [] \<and> new = SortSlice env feedItems
                   \<and> length new = length feedItems"
  proof
    assume z: "state = zeroState \<and> (\<forall>i\<in>set feedItems. 0 < Time i)"
    have "set (SortSlice env feedItems) = set feedItems"
      using perm by (rule mset_eq_setD)
    with z have "new = SortSlice env feedItems"
      by (simp add: new zeroState_def)
    moreover have "length (SortSlice env feedItems) = length feedItems"
      using perm by (rule mset_eq_length)
    ultimately show "request_header state = [] \<and> new = SortSlice env feedItems
                   \<and> length new = length feedItems"
      using z by (simp add: request_header_def zeroState_def)
  qed
  from 1 2 3 4 show ?thesis by blast
qed

lemma example_stateFileName [simp]: "stateFileName (example_env s r d) = Inr state_path"
  by (simp add: stateFileName_def example_env_def state_path_def)

lemma example_writeState [simp]:
  "writeState (example_env s r d) st = Inr [WriteFile state_path st]"
  by (rule writeState_ok [OF example_stateFileName]) (simp_all add: example_env_def)

lemma example_readState_None [simp]: "readState (example_env None r d) = Inr (zeroState, [])"
  by (simp add: readState_def) (simp add: example_env_def)

lemma example_readState_Some [simp]: "readState (example_env (Some st) r d) = Inr (st, [])"
  by (simp add: readState_def) (simp add: example_env_def)

lemma example_fetched [simp]: "fetched (example_env s (ok_response v) d) st (ok_response v)"
  by (simp add: fetched_def example_env_def ok_response_def)

lemma example_fields [simp]:
  "XMLDecode (example_env s r d) b = d"
  "SortSlice (example_env s r d) = newest_first"
  "Format (example_env s r d) = (\<lambda>t. ''t'')"
  by (simp_all add: example_env_def)

lemma capture_ok [simp]: "capture (ok_response v) st = st\<lparr>LastModified := v\<rparr>"
  by (simp add: capture_def ok_response_def)

theorem no_duplicate_announcement_witness:
  "readState (example_env None (ok_response ''Mon'') (Inr three_items)) = Inr (zeroState, [])
   \<and> newest_first three_items = [item_at ''c'' 30, item_at ''b'' 20, item_at ''a'' 10]
   \<and> readNews (example_env None (ok_response ''Mon'') (Inr three_items)) =
       Inr [HttpGet NEWSFEED_URL [],
            Send ''Arch Linux news:'',
            Send ''  - t: c (https://archlinux.org/news/)'',
            Send ''  - t: b (https://archlinux.org/news/)'',
            Send ''  - t: a (https://archlinux.org/news/)'',
            WriteFile state_path \<lparr>LastModified = ''Mon'', LatestItemTime = 30\<rparr>,
            Close]"
proof -
  let ?env = "example_env None (ok_response ''Mon'') (Inr three_items)"
  have s: "newest_first three_items = [item_at ''c'' 30, item_at ''b'' 20, item_at ''a'' 10]"
    by (simp add: three_items_def item_at_def)
  have p: "mset (SortSlice ?env three_items) = mset three_items"
    by (simp add: s) (simp add: three_items_def)
  have o: "sorted_wrt (\<lambda>a b. Time b \<le> Time a) (SortSlice ?env three_items)"
    by (simp add: s) (simp add: item_at_def)
  have n: "three_items \<noteq> []"
    by (simp add: three_items_def)
  have m: "Max (Time ` set three_items) = 30"
    by (simp add: three_items_def item_at_def)
  have f: "filter (\<lambda>i. LatestItemTime zeroState < Time i) (SortSlice ?env three_items)
             = [item_at ''c'' 30, item_at ''b'' 20, item_at ''a'' 10]"
    by (simp add: s) (simp add: zeroState_def item_at_def)
  have "readNews ?env =
          Inr ([] @ [HttpGet NEWSFEED_URL (request_header zeroState)]
               @ (if three_items = [] then [Send ''No Arch Linux news (empty feed).'']
                  else if [item_at ''c'' 30, item_at ''b'' 20, item_at ''a'' 10] = []
                  then [Send ''No Arch Linux news.'']
                  else Send ''Arch Linux news:'' #
                       map (\<lambda>i. Send (item_line (Format ?env) i))
                         [item_at ''c'' 30, item_at ''b'' 20, item_at ''a'' 10])
               @ trace_of (writeState ?env
                   ((capture (ok_response ''Mon'') zeroState)\<lparr>LatestItemTime := 30\<rparr>))
               @ [Close])"
    using no_duplicate_announcement [OF example_readState_None example_fetched _ p o f [symmetric],
        of "(capture (ok_response ''Mon'') zeroState)\<lparr>LatestItemTime := 30\<rparr>"] m n
    by simp
  then show ?thesis
    using s n by (simp add: request_header_def zeroState_def trace_of_def item_line_def item_at_def)
qed


lemma written_decoded:
  assumes rs: "readState env = Inr (state, diag)"
    and f: "fetched env state resp"
    and x: "XMLDecode env (Body resp) = Inr feedItems"
    and n: "stateFileName env = Inr name"
    and mk: "MkdirAll env (Dir env name) = None"
    and cr: "Create env name = None"
  shows "readNews env =
           Inr (diag @ [HttpGet NEWSFEED_URL (request_header state)]
                @ fst (announce env (capture resp state) feedItems)
                @ [WriteFile name (snd (announce env (capture resp state) feedItems)), Close])"
    and "written_states (trace_of (readNews env)) =
           [snd (announce env (capture resp state) feedItems)]"
proof -
  from f have f1: "NewRequestError env = None"
    and f2: "Do env (request_header state) = Response resp"
    and f3: "StatusCode resp = 200"
    by (simp_all add: fetched_def)
  show 1: "readNews env =
           Inr (diag @ [HttpGet NEWSFEED_URL (request_header state)]
                @ fst (announce env (capture resp state) feedItems)
                @ [WriteFile name (snd (announce env (capture resp state) feedItems)), Close])"
    using readNews_decoded [OF rs f1 f2 f3 x] writeState_ok [OF n mk cr]
    by simp
  show "written_states (trace_of (readNews env)) =
           [snd (announce env (capture resp state) feedItems)]"
    using readState_diag [OF rs]
    by (simp add: 1 trace_of_def written_states_append written_states_announce)
qed

text \<open>
  Claim C4, as amended. After a poll that fetches and decodes a non-empty feed
  and whose state file can be written, the persisted watermark is the greatest
  timestamp of that poll's items, whatever the stored watermark was. It is at
  least the stored watermark iff some item of the feed is not older than the
  stored watermark, and strictly greater iff the poll announces an item.
\<close>

theorem watermark_is_newest_item:
  assumes rs: "readState env = Inr (state, diag)"
    and f: "fetched env state resp"
    and x: "XMLDecode env (Body resp) = Inr feedItems"
    and perm: "mset (SortSlice env feedItems) = mset feedItems"
    and srt: "sorted_wrt (\<lambda>a b. Time b \<le> Time a) (SortSlice env feedItems)"
    and ne: "feedItems \<noteq> []"
    and n: "stateFileName env = Inr name"
    and mk: "MkdirAll env (Dir env name) = None"
    and cr: "Create env name = None"
  shows "written_states (trace_of (readNews env)) =
           [(capture resp state)\<lparr>LatestItemTime := Max (Time ` set feedItems)\<rparr>]
         \<and> (LatestItemTime state \<le> Max (Time ` set feedItems) \<longleftrightarrow>
              (\<exists>i\<in>set feedItems. LatestItemTime state \<le> Time i))
         \<and> (LatestItemTime state < Max (Time ` set feedItems) \<longleftrightarrow>
              filter (\<lambda>i. LatestItemTime state < Time i) (SortSlice env feedItems) \<noteq> [])"
proof -
  have 1: "written_states (trace_of (readNews env)) =
           [(capture resp state)\<lparr>LatestItemTime := Max (Time ` set feedItems)\<rparr>]"
    using written_decoded(2) [OF rs f x n mk cr]
      announce_sorted [OF perm srt ne, of "capture resp state"]
    by simp
  have fin: "finite (Time ` set feedItems)" and nem: "Time ` set feedItems \<noteq> {}"
    using ne by simp_all
  have 2: "LatestItemTime state \<le> Max (Time ` set feedItems) \<longleftrightarrow>
              (\<exists>i\<in>set feedItems. LatestItemTime state \<le> Time i)"
    using Max_ge_iff [OF fin nem] by auto
  have "set (SortSlice env feedItems) = set feedItems"
    using perm by (rule mset_eq_setD)
  then have 3: "LatestItemTime state < Max (Time ` set feedItems) \<longleftrightarrow>
              filter (\<lambda>i. LatestItemTime state < Time i) (SortSlice env feedItems) \<noteq> []"
    using Max_gr_iff [OF fin nem] by (auto simp: filter_empty_conv)
  from 1 2 3 show ?thesis by blast
qed

lemma first_poll_written:
  "written_states (trace_of (readNews first_poll)) = [\<lparr>LastModified = ''Mon'', LatestItemTime = 10\<rparr>]"
proof -
  have "announce first_poll (capture (ok_response ''Mon'') zeroState) [item_at ''a'' 10] =
          ([Send ''Arch Linux news:'', Send (item_line (\<lambda>t. ''t'') (item_at ''a'' 10))],
           \<lparr>LastModified = ''Mon'', LatestItemTime = 10\<rparr>)"
    by (simp add: announce_def first_poll_def) (simp add: zeroState_def item_at_def)
  then show ?thesis
    using written_decoded(2) [of first_poll zeroState "[]" "ok_response ''Mon''"
        "[item_at ''a'' 10]" state_path]
    by (simp add: first_poll_def) (simp add: example_env_def)
qed

lemma second_poll_written:
  "written_states (trace_of (readNews second_poll)) = [\<lparr>LastModified = ''Tue'', LatestItemTime = 5\<rparr>]"
proof -
  have "announce second_poll
          (capture (ok_response ''Tue'') \<lparr>LastModified = ''Mon'', LatestItemTime = 10\<rparr>)
          [item_at ''b'' 5] =
          ([Send ''No Arch Linux news.''], \<lparr>LastModified = ''Tue'', LatestItemTime = 5\<rparr>)"
    by (simp add: announce_def second_poll_def) (simp add: item_at_def)
  then show ?thesis
    using written_decoded(2) [of second_poll "\<lparr>LastModified = ''Mon'', LatestItemTime = 10\<rparr>" "[]"
        "ok_response ''Tue''" "[item_at ''b'' 5]" state_path]
    by (simp add: second_poll_def) (simp add: example_env_def)
qed

text \<open>
  Claim C4 as stated fails: the first poll persists the watermark 10; the second
  poll reads it back, finds a feed whose only item has timestamp 5, and persists
  the watermark 5.
\<close>

theorem watermark_decreases_counterexample:
  "written_states (trace_of (readNews first_poll)) =
     [\<lparr>LastModified = ''Mon'', LatestItemTime = 10\<rparr>]
   \<and> readState second_poll = Inr (\<lparr>LastModified = ''Mon'', LatestItemTime = 10\<rparr>, [])
   \<and> written_states (trace_of (readNews second_poll)) =
     [\<lparr>LastModified = ''Tue'', LatestItemTime = 5\<rparr>]
   \<and> LatestItemTime \<lparr>LastModified = ''Tue'', LatestItemTime = 5\<rparr>
       < LatestItemTime \<lparr>LastModified = ''Mon'', LatestItemTime = 10\<rparr>"
  using first_poll_written second_poll_written by (simp add: second_poll_def)

theorem watermark_is_newest_item_witness:
  "readState second_poll = Inr (\<lparr>LastModified = ''Mon'', LatestItemTime = 10\<rparr>, [])
   \<and> fetched second_poll \<lparr>LastModified = ''Mon'', LatestItemTime = 10\<rparr> (ok_response ''Tue'')
   \<and> stateFileName second_poll = Inr state_path
   \<and> written_states (trace_of (readNews second_poll)) =
       [\<lparr>LastModified = ''Tue'', LatestItemTime = 5\<rparr>]"
proof -
  let ?st = "\<lparr>LastModified = ''Mon'', LatestItemTime = 10\<rparr>"
  have rs: "readState second_poll = Inr (?st, [])"
    and f: "fetched second_poll ?st (ok_response ''Tue'')"
    and x: "XMLDecode second_poll (Body (ok_response ''Tue'')) = Inr [item_at ''b'' 5]"
    and n: "stateFileName second_poll = Inr state_path"
    by (simp_all add: second_poll_def)
  have p: "mset (SortSlice second_poll [item_at ''b'' 5]) = mset [item_at ''b'' 5]"
    and o: "sorted_wrt (\<lambda>a b. Time b \<le> Time a) (SortSlice second_poll [item_at ''b'' 5])"
    and mk: "MkdirAll second_poll (Dir second_poll state_path) = None"
    and cr: "Create second_poll state_path = None"
    by (simp_all add: second_poll_def) (simp_all add: example_env_def)
  show ?thesis
    using watermark_is_newest_item [OF rs f x p o _ n mk cr] rs f n
    by (simp add: item_at_def)
qed


lemma readNews_undecoded:
  assumes rs: "readState env = Inr (state, diag)"
    and f: "fetched env state resp"
    and x: "XMLDecode env (Body resp) = Inl msg"
  shows "readNews env =
           Inr (diag @ [HttpGet NEWSFEED_URL (request_header state),
                  Send (''Arch Linux news: failed to decode feed: '' @ msg), Close])"
  using assms by (simp add: readNews_def fetched_def)

lemma readNews_updall_fetched:
  assumes rs: "readState_updall env = Inr (state, diag)"
    and f: "fetched env state resp"
    and n: "stateFileName_updall env = Inr name"
    and cr: "Create env name = None"
  shows "\<exists>sends final.
           readNews_updall env =
             Inr (diag @ [HttpGet NEWSFEED_URL (request_header state)] @ sends
                  @ [WriteFile name final, Close])
           \<and> written_states sends = []
           \<and> LastModified final = LastModified (capture resp state)"
proof (cases "XMLDecode env (Body resp)")
  case (Inl msg)
  have "readNews_updall env =
          Inr (diag @ [HttpGet NEWSFEED_URL (request_header state)] @ [Send msg]
               @ [WriteFile name (capture resp state), Close])"
    using rs f Inl writeState_updall_ok [OF n cr]
    by (simp add: readNews_updall_def fetched_def)
  moreover have "written_states [Send msg] = []"
    by simp
  ultimately show ?thesis by blast
next
  case (Inr items)
  let ?a = "announce_updall env (capture resp state) items"
  have "readNews_updall env =
          Inr (diag @ [HttpGet NEWSFEED_URL (request_header state)] @ fst ?a
               @ [WriteFile name (snd ?a), Close])"
    using rs f Inr writeState_updall_ok [OF n cr]
    by (simp add: readNews_updall_def fetched_def case_prod_beta)
  moreover have "written_states (fst ?a) = []"
    by (rule written_states_announce_updall)
  moreover have "LastModified (snd ?a) = LastModified (capture resp state)"
    by (rule LastModified_announce_updall)
  ultimately show ?thesis by blast
qed

text \<open>
  Claim C2, as amended. Take a poll that reaches a response with status 200.
  In \<^verbatim>\<open>archupd.go\<close> a body that does not decode yields one diagnostic line
  and nothing is written; a body that decodes yields, when the state file can
  be created, exactly one write of the state, as the last event before the
  channel is closed, with the captured cache validator. In \<^verbatim>\<open>updall.go\<close> the
  state is written exactly once at the end, with the captured cache validator,
  whether or not the body decodes. The captured validator is the first
  \<^verbatim>\<open>Last-Modified\<close> value of the response, or the stored one when the
  response has none.
\<close>

theorem state_persisted_after_decode:
  assumes f: "fetched env state resp"
  shows "(readState env = Inr (state, diag) \<longrightarrow>
            (\<forall>msg. XMLDecode env (Body resp) = Inl msg \<longrightarrow>
               readNews env =
                 Inr (diag @ [HttpGet NEWSFEED_URL (request_header state),
                        Send (''Arch Linux news: failed to decode feed: '' @ msg), Close])
               \<and> written_states (trace_of (readNews env)) = [])
          \<and> (\<forall>items name.
               XMLDecode env (Body resp) = Inr items \<and> stateFileName env = Inr name
               \<and> MkdirAll env (Dir env name) = None \<and> Create env name = None \<longrightarrow>
               readNews env =
                 Inr (diag @ [HttpGet NEWSFEED_URL (request_header state)]
                      @ fst (announce env (capture resp state) items)
                      @ [WriteFile name (snd (announce env (capture resp state) items)), Close])
               \<and> written_states (trace_of (readNews env)) =
                   [snd (announce env (capture resp state) items)]
               \<and> LastModified (snd (announce env (capture resp state) items)) =
                   LastModified (capture resp state)))
         \<and> (readState_updall env = Inr (state, diag) \<longrightarrow>
            (\<forall>name. stateFileName_updall env = Inr name \<and> Create env name = None \<longrightarrow>
               (\<exists>sends final.
                  readNews_updall env =
                    Inr (diag @ [HttpGet NEWSFEED_URL (request_header state)] @ sends
                         @ [WriteFile name final, Close])
                  \<and> written_states sends = []
                  \<and> LastModified final = LastModified (capture resp state))))
         \<and> (\<forall>v vs. LastModifiedValues resp = v # vs \<longrightarrow> LastModified (capture resp state) = v)
         \<and> (LastModifiedValues resp = [] \<longrightarrow>
              LastModified (capture resp state) = LastModified state)"
proof -
  have 1: "written_states (trace_of (readNews env)) = []"
    if "readState env = Inr (state, diag)" "XMLDecode env (Body resp) = Inl msg" for msg
    using readNews_undecoded [OF that(1) f that(2)] readState_diag [OF that(1)]
    by (simp add: trace_of_def written_states_append)
  show ?thesis
    using readNews_undecoded [OF _ f] 1 written_decoded [OF _ f]
      readNews_updall_fetched [OF _ f] LastModified_announce
    by (auto simp: capture_def)
qed

lemma undecodable_trace:
  "readNews undecodable_poll =
     Inr [HttpGet NEWSFEED_URL [], Send ''Arch Linux news: failed to decode feed: EOF'', Close]"
  using readNews_undecoded [of undecodable_poll zeroState "[]" "ok_response ''Mon''" "''EOF''"]
  by (simp add: undecodable_poll_def request_header_def zeroState_def)

text \<open>
  Claim C2 as stated fails on \<^verbatim>\<open>archupd.go\<close>: after a response with status
  200 whose body does not decode, the trace holds no write of the state.
\<close>

theorem parse_failure_not_persisted_counterexample:
  "fetched undecodable_poll zeroState (ok_response ''Mon'')
   \<and> XMLDecode undecodable_poll (Body (ok_response ''Mon'')) = Inl ''EOF''
   \<and> readNews undecodable_poll =
       Inr [HttpGet NEWSFEED_URL [], Send ''Arch Linux news: failed to decode feed: EOF'', Close]
   \<and> written_states (trace_of (readNews undecodable_poll)) = []"
  using undecodable_trace by (simp add: trace_of_def) (simp add: undecodable_poll_def)

theorem state_persisted_after_decode_witness:
  "fetched undecodable_poll zeroState (ok_response ''Mon'')
   \<and> readState undecodable_poll = Inr (zeroState, [])
   \<and> XMLDecode undecodable_poll (Body (ok_response ''Mon'')) = Inl ''EOF''
   \<and> written_states (trace_of (readNews undecodable_poll)) = []
   \<and> LastModified (capture (ok_response ''Mon'') zeroState) = ''Mon''"
proof -
  have f: "fetched undecodable_poll zeroState (ok_response ''Mon'')"
    and rs: "readState undecodable_poll = Inr (zeroState, [])"
    and x: "XMLDecode undecodable_poll (Body (ok_response ''Mon'')) = Inl ''EOF''"
    by (simp_all add: undecodable_poll_def)
  have v: "LastModifiedValues (ok_response ''Mon'') = [''Mon'']"
    by (simp add: ok_response_def)
  show ?thesis
    using state_persisted_after_decode [OF f, of "[]"] f rs x v by blast
qed

text \<open>
  Claim C9, as amended. \<open>readState\<close> panics when neither \<^verbatim>\<open>XDG_STATE_HOME\<close>
  nor \<^verbatim>\<open>HOME\<close> is set, and returns a state otherwise: for a missing file the
  zero-valued state and no diagnostic; for a file that cannot be opened for
  another reason the zero-valued state and the error as a printed diagnostic;
  for a file that opens, whatever the JSON decoder left in the zero-valued
  state, its error discarded without a diagnostic.
\<close>

theorem readState_outcomes:
  "(stateFileName env = Inl p \<longrightarrow> readState env = Inl p)
   \<and> (stateFileName env = Inr name \<longrightarrow>
        (Open env name = OpenError True msg \<longrightarrow> readState env = Inr (zeroState, []))
        \<and> (Open env name = OpenError False msg \<longrightarrow>
             readState env = Inr (zeroState, [Println msg]))
        \<and> (Open env name = Opened content \<longrightarrow>
             readState env = Inr (fst (JSONDecode env content), [])))
   \<and> (XDG_STATE_HOME env \<noteq> [] \<or> HOME env \<noteq> [] \<longrightarrow>
        (\<exists>state diag. readState env = Inr (state, diag)))
   \<and> (XDG_STATE_HOME env = [] \<and> HOME env = [] \<longrightarrow>
        readState env = Inl ''$HOME is not defined'')"
  by (auto simp: readState_def stateFileName_def split: open_result.splits)

lemma unreadable_name: "stateFileName unreadable_env = Inr state_path"
  by (simp add: unreadable_env_def stateFileName_def) (simp add: example_env_def state_path_def)

lemma malformed_name: "stateFileName malformed_env = Inr state_path"
  by (simp add: malformed_env_def stateFileName_def) (simp add: example_env_def state_path_def)

theorem readState_outcomes_witness:
  "stateFileName first_poll = Inr state_path
   \<and> Open first_poll state_path = OpenError True ''no such file or directory''
   \<and> readState first_poll = Inr (zeroState, [])
   \<and> Open unreadable_env state_path = OpenError False ''permission denied''
   \<and> readState unreadable_env = Inr (zeroState, [Println ''permission denied''])
   \<and> Open malformed_env state_path = Opened ''garbage''
   \<and> readState malformed_env = Inr (zeroState, [])"
proof -
  have n: "stateFileName first_poll = Inr state_path"
    by (simp add: first_poll_def)
  have o1: "Open first_poll state_path = OpenError True ''no such file or directory''"
    by (simp add: first_poll_def example_env_def)
  have o2: "Open unreadable_env state_path = OpenError False ''permission denied''"
    by (simp add: unreadable_env_def)
  have o3: "Open malformed_env state_path = Opened ''garbage''"
    and d: "JSONDecode malformed_env ''garbage'' = (zeroState, Some ''invalid character'')"
    by (simp_all add: malformed_env_def)
  show ?thesis
    using readState_outcomes [of first_poll _ state_path "''no such file or directory''"]
      readState_outcomes [of unreadable_env _ state_path "''permission denied''"]
      readState_outcomes [of malformed_env _ state_path _ "''garbage''"]
      n unreadable_name malformed_name o1 o2 o3 d
    by simp
qed

text \<open>
  Claim C9 as stated fails: for a missing state file, and for a state file
  whose content the decoder rejects, \<open>readState\<close> reports nothing.
\<close>

theorem readState_silent_counterexample:
  "Open first_poll state_path = OpenError True ''no such file or directory''
   \<and> readState first_poll = Inr (zeroState, [])
   \<and> Open malformed_env state_path = Opened ''garbage''
   \<and> snd (JSONDecode malformed_env ''garbage'') = Some ''invalid character''
   \<and> readState malformed_env = Inr (zeroState, [])"
proof -
  have "readState malformed_env = Inr (zeroState, [])"
    by (simp add: readState_def malformed_name) (simp add: malformed_env_def)
  then show ?thesis
    by (simp add: first_poll_def) (simp add: example_env_def malformed_env_def)
qed

subsection \<open>Superfluous-package remover\<close>

lemma Split_not_Nil: "Split s sep \<noteq> []"
  by (induction s) (auto split: list.splits)

text \<open>
  Claim C10. When the orphan query exits with code 0 and empty output, the
  trimmed output splits into the one-element list holding the empty string; the
  list of packages is never empty, whatever the output, so the early-return
  guard is unreachable; and the removal command runs with one empty package
  argument instead of reporting that nothing is to be removed.
\<close>

theorem orphan_empty_output_runs_removal:
  "sudo [''pacman'', ''-Qqtd''] = ([], None) \<Longrightarrow>
     Split (TrimRight [] [NL]) NL = [[]]
     \<and> (\<forall>out. length (Split (TrimRight out [NL]) NL) \<noteq> 0)
     \<and> removeSuperfluousPackages sudo =
         ([Exec [''sudo'', ''pacman'', ''-Qqtd''],
           Println ''\<newline>Superfluous packages can be removed:'',
           Exec [''sudo'', ''pacman'', ''-Rs'', []]],
          snd (sudo [''pacman'', ''-Rs'', []]))"
  using Split_not_Nil
  by (simp add: removeSuperfluousPackages_def TrimRight_def Let_def)

theorem orphan_empty_output_runs_removal_witness:
  "sudo_empty_query [''pacman'', ''-Qqtd''] = ([], None)
   \<and> removeSuperfluousPackages sudo_empty_query =
         ([Exec [''sudo'', ''pacman'', ''-Qqtd''],
           Println ''\<newline>Superfluous packages can be removed:'',
           Exec [''sudo'', ''pacman'', ''-Rs'', []]],
          Some (ExitError 1))"
proof -
  have q: "sudo_empty_query [''pacman'', ''-Qqtd''] = ([], None)"
    by (simp add: sudo_empty_query_def)
  have r: "snd (sudo_empty_query [''pacman'', ''-Rs'', []]) = Some (ExitError 1)"
    by (simp add: sudo_empty_query_def)
  show ?thesis
    using orphan_empty_output_runs_removal [of sudo_empty_query] q r by simp
qed

text \<open>
  Claim C6. An orphan query that exits with code 1 means "no orphans": the
  result is nil, the notice is printed and no removal command runs, whatever
  the query printed. Every other exit code is returned to the caller as the
  error, again without a removal command.
\<close>

theorem orphan_exit_code_disambiguation:
  "sudo [''pacman'', ''-Qqtd''] = (out, Some (ExitError code)) \<Longrightarrow>
     (code = 1 \<longrightarrow>
        removeSuperfluousPackages sudo =
          ([Exec [''sudo'', ''pacman'', ''-Qqtd''],
            Println ''\<newline>No superfluous packages.''], None))
     \<and> (code \<noteq> 1 \<longrightarrow>
        removeSuperfluousPackages sudo =
          ([Exec [''sudo'', ''pacman'', ''-Qqtd'']], Some (ExitError code)))"
  by (simp add: removeSuperfluousPackages_def)

theorem orphan_exit_code_disambiguation_witness:
  "removeSuperfluousPackages (sudo_query_exit 1) =
     ([Exec [''sudo'', ''pacman'', ''-Qqtd''],
       Println ''\<newline>No superfluous packages.''], None)
   \<and> removeSuperfluousPackages (sudo_query_exit 2) =
     ([Exec [''sudo'', ''pacman'', ''-Qqtd'']], Some (ExitError 2))"
proof -
  have q: "sudo_query_exit c [''pacman'', ''-Qqtd''] = ([], Some (ExitError c))" for c
    by (simp add: sudo_query_exit_def)
  show ?thesis
    using orphan_exit_code_disambiguation [of "sudo_query_exit 1" "[]" 1]
          orphan_exit_code_disambiguation [of "sudo_query_exit 2" "[]" 2] q
    by simp
qed

subsection \<open>Orchestration\<close>

lemma called_append: "called n (xs @ ys) = called n xs + called n ys"
  by (induction xs rule: called.induct) simp_all

lemma called_Println: "called n (map Println xs) = 0"
  by (induction xs) simp_all

lemma called_diff_loop: "called n (fst (diff_loop de pre post f order)) = 0"
  by (induction order arbitrary: f)
     (auto simp: called_append case_prod_beta split: option.splits)

lemma called_showChangelogDiff: "called n (showChangelogDiff de pre post order) = 0"
  by (simp add: showChangelogDiff_def case_prod_beta called_append called_diff_loop)

lemma called_removeSuperfluousPackages: "called n (fst (removeSuperfluousPackages s)) = 0"
  by (auto simp: removeSuperfluousPackages_def Let_def case_prod_beta
      split: option.splits error.splits)

lemma called_alpm_loop: "called n (fst (alpm_loop f ls)) = 0"
  by (induction ls arbitrary: f) (auto simp: called_append case_prod_beta)

lemma called_exitOnError: "called n (exitOnError err rest) = (if err = None then called n rest else 0)"
  by (cases err) (simp_all add: exitOnError_def)

lemma called_drain_news: "called n (drain_news env) = 0"
  by (simp add: drain_news_def called_Println)

lemma called_pacman: "called n (fst (pacman s args)) = 0"
  by (simp add: pacman_def Let_def)

lemma snd_alpm_loop:
  "snd (alpm_loop f ls) \<longleftrightarrow> f \<or> (\<exists>line\<in>set ls. Contains line PACMAN_LOG_ALPM_MARKER)"
  by (induction ls arbitrary: f) (auto simp: case_prod_beta)

lemma alpm_loop_silent:
  "\<not> (\<exists>line\<in>set ls. Contains line PACMAN_LOG_ALPM_MARKER) \<Longrightarrow> fst (alpm_loop f ls) = []"
  by (induction ls arbitrary: f) auto

lemma called_after_scan:
  "called n (after_scan env pre found) =
     (if found then
        (if n = ''getChangelogs'' then 1 else 0)
        + (if snapshot_ok (changelogs env 1)
           then (if n = ''showChangelogDiff'' then 1 else 0)
                + (if n = ''removeSuperfluousPackages'' then 1 else 0)
           else 0)
      else 0)"
  by (auto simp: after_scan_def snapshot_ok_def called_append called_showChangelogDiff
      called_removeSuperfluousPackages called_exitOnError called_drain_news case_prod_beta
      split: sum.splits)


lemma main_tail:
  assumes "\<not> helpFlag env"
    and "snd (run_sudo env [''pacman'', ''-Sc'', ''--noconfirm'']) = None"
    and "getChangelogs (changelogs env 0) = Inr changelogsPre"
    and "newLogMonitor (os_open env) PACMAN_LOG_PATH = Inr logMon"
    and "snd (run_sudo env [''pacman'', ''-Syu'', ''--noconfirm'']) = None"
  shows "main env =
           [Go ''readNews'',
            Call ''pacman'' [''-Sc'', ''--noconfirm''],
            Exec [''sudo'', ''pacman'', ''-Sc'', ''--noconfirm''],
            Call ''getChangelogs'' [],
            Call ''newLogMonitor'' [PACMAN_LOG_PATH],
            Call ''pacman'' [''-Syu'', ''--noconfirm''],
            Exec [''sudo'', ''pacman'', ''-Syu'', ''--noconfirm'']]
           @ fst (alpm_loop False (lines logMon (log_after env)))
           @ after_scan env changelogsPre (snd (alpm_loop False (lines logMon (log_after env))))"
  using assms by (simp add: main_def pacman_def exitOnError_def case_prod_beta Let_def)

lemma called_main_early:
  assumes "\<not> tail_read env" and "n \<noteq> ''pacman''" and "n \<noteq> ''newLogMonitor''"
  shows "called n (main env) =
           (if n = ''getChangelogs'' \<and> \<not> helpFlag env
               \<and> snd (run_sudo env [''pacman'', ''-Sc'', ''--noconfirm'']) = None
            then 1 else 0)"
proof (cases "helpFlag env")
  case True
  then show ?thesis by (simp add: main_def)
next
  case nohelp: False
  show ?thesis
  proof (cases "snd (run_sudo env [''pacman'', ''-Sc'', ''--noconfirm''])")
    case (Some e)
    then show ?thesis
      using nohelp assms(2,3)
      by (simp add: main_def pacman_def exitOnError_def case_prod_beta Let_def)
  next
    case clean: None
    show ?thesis
    proof (cases "getChangelogs (changelogs env 0)")
      case (Inl e)
      then show ?thesis
        using nohelp clean assms(2,3)
        by (simp add: main_def pacman_def exitOnError_def case_prod_beta Let_def)
    next
      case pre: (Inr changelogsPre)
      show ?thesis
      proof (cases "newLogMonitor (os_open env) PACMAN_LOG_PATH")
        case (Inl e)
        then show ?thesis
          using nohelp clean pre assms(2,3)
          by (simp add: main_def pacman_def exitOnError_def case_prod_beta Let_def)
      next
        case mon: (Inr logMon)
        from assms(1) nohelp clean pre mon
        obtain e where "snd (run_sudo env [''pacman'', ''-Syu'', ''--noconfirm'']) = Some e"
          by (auto simp: tail_read_def)
        then show ?thesis
          using nohelp clean pre mon assms(2,3)
          by (simp add: main_def pacman_def exitOnError_def case_prod_beta Let_def)
      qed
    qed
  qed
qed

lemma called_main_tail:
  assumes "tail_read env" and "n \<noteq> ''pacman''" and "n \<noteq> ''newLogMonitor''"
  shows "called n (main env) =
           (if n = ''getChangelogs'' then 1 else 0)
           + (if marker_found env then
                (if n = ''getChangelogs'' then 1 else 0)
                + (if snapshot_ok (changelogs env 1)
                   then (if n = ''showChangelogDiff'' then 1 else 0)
                        + (if n = ''removeSuperfluousPackages'' then 1 else 0)
                   else 0)
              else 0)"
proof -
  from assms(1) obtain changelogsPre logMon
    where h: "\<not> helpFlag env"
      and c: "snd (run_sudo env [''pacman'', ''-Sc'', ''--noconfirm'']) = None"
      and p: "getChangelogs (changelogs env 0) = Inr changelogsPre"
      and m: "newLogMonitor (os_open env) PACMAN_LOG_PATH = Inr logMon"
      and u: "snd (run_sudo env [''pacman'', ''-Syu'', ''--noconfirm'']) = None"
    by (auto simp: tail_read_def split: sum.splits)
  have f: "snd (alpm_loop False (lines logMon (log_after env))) \<longleftrightarrow> marker_found env"
    using h c p m u by (simp add: marker_found_def snd_alpm_loop)
  show ?thesis
    using assms(2,3)
    by (simp add: main_tail [OF h c p m u] called_append called_alpm_loop
        called_after_scan f)
qed

lemma marker_found_tail_read: "marker_found env \<Longrightarrow> tail_read env"
  by (auto simp: marker_found_def tail_read_def split: sum.splits)

text \<open>
  Claim C8, as amended. The second changelog snapshot is taken iff the run
  reads the log tail and finds at least one line with the ALPM marker. The
  changelog diff and the orphan removal are each executed (once) iff, in
  addition, that second snapshot succeeds; its failure ends the run with status
  1 before them. A run that reads the tail and finds no marker line executes
  only the cleanup, the first snapshot, the opening of the monitor and the
  upgrade, then prints the news.
\<close>

theorem post_upgrade_steps_gated:
  "(called ''getChangelogs'' (main env) = 2 \<longleftrightarrow> marker_found env)
   \<and> called ''showChangelogDiff'' (main env) =
       (if marker_found env \<and> snapshot_ok (changelogs env 1) then 1 else 0)
   \<and> called ''removeSuperfluousPackages'' (main env) =
       (if marker_found env \<and> snapshot_ok (changelogs env 1) then 1 else 0)
   \<and> (tail_read env \<and> \<not> marker_found env \<longrightarrow>
        main env =
          [Go ''readNews'',
           Call ''pacman'' [''-Sc'', ''--noconfirm''],
           Exec [''sudo'', ''pacman'', ''-Sc'', ''--noconfirm''],
           Call ''getChangelogs'' [],
           Call ''newLogMonitor'' [PACMAN_LOG_PATH],
           Call ''pacman'' [''-Syu'', ''--noconfirm''],
           Exec [''sudo'', ''pacman'', ''-Syu'', ''--noconfirm''],
           Println []]
          @ map Println (news env))"
proof -
  have 1: "called ''getChangelogs'' (main env) = 2 \<longleftrightarrow> marker_found env"
  proof (cases "tail_read env")
    case True
    then show ?thesis by (simp add: called_main_tail)
  next
    case False
    then have "\<not> marker_found env" using marker_found_tail_read by blast
    then show ?thesis using False by (simp add: called_main_early)
  qed
  have 2: "called n (main env) =
       (if marker_found env \<and> snapshot_ok (changelogs env 1) then 1 else 0)"
    if "n = ''showChangelogDiff'' \<or> n = ''removeSuperfluousPackages''" for n
  proof (cases "tail_read env")
    case True
    then show ?thesis using that by (auto simp: called_main_tail)
  next
    case False
    then have "\<not> marker_found env" using marker_found_tail_read by blast
    then show ?thesis using False that by (auto simp: called_main_early)
  qed
  have 3: "main env =
          [Go ''readNews'',
           Call ''pacman'' [''-Sc'', ''--noconfirm''],
           Exec [''sudo'', ''pacman'', ''-Sc'', ''--noconfirm''],
           Call ''getChangelogs'' [],
           Call ''newLogMonitor'' [PACMAN_LOG_PATH],
           Call ''pacman'' [''-Syu'', ''--noconfirm''],
           Exec [''sudo'', ''pacman'', ''-Syu'', ''--noconfirm''],
           Println []]
          @ map Println (news env)"
    if t: "tail_read env" and n: "\<not> marker_found env"
  proof -
    from t obtain changelogsPre logMon
      where h: "\<not> helpFlag env"
        and c: "snd (run_sudo env [''pacman'', ''-Sc'', ''--noconfirm'']) = None"
        and p: "getChangelogs (changelogs env 0) = Inr changelogsPre"
        and m: "newLogMonitor (os_open env) PACMAN_LOG_PATH = Inr logMon"
        and u: "snd (run_sudo env [''pacman'', ''-Syu'', ''--noconfirm'']) = None"
      by (auto simp: tail_read_def split: sum.splits)
    have nf: "\<not> (\<exists>line\<in>set (lines logMon (log_after env)). Contains line PACMAN_LOG_ALPM_MARKER)"
      using n h c p m u by (simp add: marker_found_def)
    then have "\<not> snd (alpm_loop False (lines logMon (log_after env)))"
      by (simp add: snd_alpm_loop)
    then show ?thesis
      using alpm_loop_silent [OF nf, of False]
      by (simp add: main_tail [OF h c p m u] after_scan_def drain_news_def)
  qed
  from 1 2 3 show ?thesis by blast
qed


lemma small_getChangelogs: "getChangelogs (query_ok small_output) = Inr [''a'' \<mapsto> ''x\<newline>'']"
  using getChangelogs_plain [OF small_plain] small_spec by simp

lemma failing_getChangelogs:
  "getChangelogs ((query_ok small_output)\<lparr>wait_err := Some (ExitError 1)\<rparr>) = Inl (ExitError 1)"
  by (simp add: getChangelogs_def query_ok_def Let_def)

lemma alpm_line_Scan: "Scan (alpm_line @ [NL]) = [alpm_line]"
proof -
  have "Scan (alpm_line @ NL # []) = dropCR alpm_line # Scan []"
    by (rule Scan_line) (simp_all add: alpm_line_def NL_def MaxScanTokenSize_def)
  then show ?thesis
    by (simp add: Scan_Nil dropCR_def) (simp add: alpm_line_def CR_def)
qed

lemma alpm_line_marker: "Contains alpm_line PACMAN_LOG_ALPM_MARKER"
  by (simp add: alpm_line_def PACMAN_LOG_ALPM_MARKER_def)

lemma monitor_empty_log:
  "newLogMonitor (log_only []) PACMAN_LOG_PATH = Inr \<lparr>offset = 0\<rparr>"
  by (simp add: newLogMonitor_def log_only_def PACMAN_LOG_PATH_def regular_file_def)

lemma failing_post_found: "marker_found failing_post_env"
  by (simp add: marker_found_def failing_post_env_def sudo_ok_def small_getChangelogs
      monitor_empty_log lines_def regular_file_def alpm_line_Scan alpm_line_marker)

lemma failing_post_snapshot: "\<not> snapshot_ok (changelogs failing_post_env 1)"
  by (simp add: snapshot_ok_def failing_post_env_def failing_getChangelogs)

text \<open>
  Claim C8 as stated fails: a marker line is found, the second snapshot is
  started and its query exits with status 1, and the run ends there, without
  the diff and without the orphan removal.
\<close>

theorem post_snapshot_failure_counterexample:
  "marker_found failing_post_env
   \<and> main failing_post_env =
       [Go ''readNews'',
        Call ''pacman'' [''-Sc'', ''--noconfirm''],
        Exec [''sudo'', ''pacman'', ''-Sc'', ''--noconfirm''],
        Call ''getChangelogs'' [],
        Call ''newLogMonitor'' [PACMAN_LOG_PATH],
        Call ''pacman'' [''-Syu'', ''--noconfirm''],
        Exec [''sudo'', ''pacman'', ''-Syu'', ''--noconfirm''],
        Println ''\<newline>ALPM logs:'',
        Println alpm_line,
        Call ''getChangelogs'' [],
        PrintlnErr (ExitError 1),
        Exit 1]
   \<and> called ''showChangelogDiff'' (main failing_post_env) = 0
   \<and> called ''removeSuperfluousPackages'' (main failing_post_env) = 0"
proof -
  have m: "main failing_post_env =
       [Go ''readNews'',
        Call ''pacman'' [''-Sc'', ''--noconfirm''],
        Exec [''sudo'', ''pacman'', ''-Sc'', ''--noconfirm''],
        Call ''getChangelogs'' [],
        Call ''newLogMonitor'' [PACMAN_LOG_PATH],
        Call ''pacman'' [''-Syu'', ''--noconfirm''],
        Exec [''sudo'', ''pacman'', ''-Syu'', ''--noconfirm''],
        Println ''\<newline>ALPM logs:'',
        Println alpm_line,
        Call ''getChangelogs'' [],
        PrintlnErr (ExitError 1),
        Exit 1]"
    using main_tail [of failing_post_env "[''a'' \<mapsto> ''x\<newline>'']" "\<lparr>offset = 0\<rparr>"]
    by (simp add: failing_post_env_def sudo_ok_def small_getChangelogs monitor_empty_log
        lines_def regular_file_def alpm_line_Scan alpm_line_marker after_scan_def
        failing_getChangelogs exitOnError_def)
  show ?thesis
    using failing_post_found by (simp add: m)
qed

theorem post_upgrade_steps_gated_witness:
  "tail_read quiet_env \<and> \<not> marker_found quiet_env
   \<and> main quiet_env =
       [Go ''readNews'',
        Call ''pacman'' [''-Sc'', ''--noconfirm''],
        Exec [''sudo'', ''pacman'', ''-Sc'', ''--noconfirm''],
        Call ''getChangelogs'' [],
        Call ''newLogMonitor'' [PACMAN_LOG_PATH],
        Call ''pacman'' [''-Syu'', ''--noconfirm''],
        Exec [''sudo'', ''pacman'', ''-Syu'', ''--noconfirm''],
        Println [],
        Println ''No Arch Linux news.'']
   \<and> called ''getChangelogs'' (main quiet_env) \<noteq> 2
   \<and> called ''showChangelogDiff'' (main quiet_env) = 0
   \<and> called ''removeSuperfluousPackages'' (main quiet_env) = 0
   \<and> marker_found failing_post_env
   \<and> called ''getChangelogs'' (main failing_post_env) = 2"
proof -
  have t: "tail_read quiet_env"
    by (simp add: tail_read_def quiet_env_def sudo_ok_def small_getChangelogs monitor_empty_log)
  have n: "\<not> marker_found quiet_env"
    by (simp add: marker_found_def quiet_env_def sudo_ok_def small_getChangelogs
        monitor_empty_log lines_def regular_file_def Scan_Nil)
  have q: "news quiet_env = [''No Arch Linux news.'']"
    by (simp add: quiet_env_def)
  show ?thesis
    using post_upgrade_steps_gated [of quiet_env] post_upgrade_steps_gated [of failing_post_env]
      t n q failing_post_found
    by simp
qed

end
